theory Spec2Isabelle
  imports Complex_Main
begin

section \<open>Floating-point values\<close>

text \<open>
  Every number the pricer computes with is a Python \<^verbatim>\<open>float\<close> or an entry of a numpy
  \<^verbatim>\<open>float64\<close> array. A finite value is modelled by the real number it denotes, so
  rounding, overflow and underflow are outside the model. The special values are kept,
  because numpy does not raise on a division by zero: it yields an infinity or a NaN
  (with a RuntimeWarning) and the computation goes on. \<open>Fin 0\<close> is \<open>+0.0\<close> and
  \<open>NZero\<close> is \<open>-0.0\<close>. The parameters a caller passes are meant to be finite numbers;
  where a theorem needs that, it says so with \<open>is_fin\<close>.
\<close>

datatype npfloat = Fin real | NZero | PInf | NInf | NaN

fun sign_bit :: "npfloat \<Rightarrow> bool" where
  "sign_bit (Fin a) = (a < 0)"
| "sign_bit NZero = True"
| "sign_bit PInf = False"
| "sign_bit NInf = True"
| "sign_bit NaN = False"

fun rv :: "npfloat \<Rightarrow> real" where
  "rv (Fin a) = a"
| "rv NZero = 0"
| "rv PInf = 0"
| "rv NInf = 0"
| "rv NaN = 0"

fun is_fin :: "npfloat \<Rightarrow> bool" where
  "is_fin (Fin a) = True"
| "is_fin NZero = True"
| "is_fin PInf = False"
| "is_fin NInf = False"
| "is_fin NaN = False"

fun is_inf :: "npfloat \<Rightarrow> bool" where
  "is_inf PInf = True"
| "is_inf NInf = True"
| "is_inf (Fin a) = False"
| "is_inf NZero = False"
| "is_inf NaN = False"

fun is_zero :: "npfloat \<Rightarrow> bool" where
  "is_zero (Fin a) = (a = 0)"
| "is_zero NZero = True"
| "is_zero PInf = False"
| "is_zero NInf = False"
| "is_zero NaN = False"

definition signed_zero :: "bool \<Rightarrow> npfloat" where
  "signed_zero s = (if s then NZero else Fin 0)"

definition signed_inf :: "bool \<Rightarrow> npfloat" where
  "signed_inf s = (if s then NInf else PInf)"

definition from_real :: "bool \<Rightarrow> real \<Rightarrow> npfloat" where
  \<comment> \<open>the finite value \<open>a\<close>; the sign \<open>s\<close> only matters when \<open>a\<close> is zero\<close>
  "from_real s a = (if a = 0 then signed_zero s else Fin a)"

definition fneg :: "npfloat \<Rightarrow> npfloat" where
  "fneg x = (case x of Fin a \<Rightarrow> from_real True (- a) | NZero \<Rightarrow> Fin 0
             | PInf \<Rightarrow> NInf | NInf \<Rightarrow> PInf | NaN \<Rightarrow> NaN)"

definition fadd :: "npfloat \<Rightarrow> npfloat \<Rightarrow> npfloat" where
  "fadd x y =
     (if x = NaN \<or> y = NaN then NaN
      else if is_inf x then (if is_inf y \<and> sign_bit x \<noteq> sign_bit y then NaN else x)
      else if is_inf y then y
      else if is_zero x \<and> is_zero y then signed_zero (sign_bit x \<and> sign_bit y)
      else Fin (rv x + rv y))"

definition fsub :: "npfloat \<Rightarrow> npfloat \<Rightarrow> npfloat" where
  "fsub x y = fadd x (fneg y)"

definition fmul :: "npfloat \<Rightarrow> npfloat \<Rightarrow> npfloat" where
  "fmul x y =
     (if x = NaN \<or> y = NaN then NaN
      else if is_inf x \<or> is_inf y then
        (if is_zero x \<or> is_zero y then NaN else signed_inf (sign_bit x \<noteq> sign_bit y))
      else from_real (sign_bit x \<noteq> sign_bit y) (rv x * rv y))"

definition fdiv :: "npfloat \<Rightarrow> npfloat \<Rightarrow> npfloat" where
  \<comment> \<open>numpy's \<^verbatim>\<open>/\<close> on \<^verbatim>\<open>float64\<close>: a zero divisor gives an infinity or NaN, never an exception\<close>
  "fdiv x y =
     (if x = NaN \<or> y = NaN then NaN
      else if is_inf x then (if is_inf y then NaN else signed_inf (sign_bit x \<noteq> sign_bit y))
      else if is_inf y then signed_zero (sign_bit x \<noteq> sign_bit y)
      else if is_zero y then
        (if is_zero x then NaN else signed_inf (sign_bit x \<noteq> sign_bit y))
      else from_real (sign_bit x \<noteq> sign_bit y) (rv x / rv y))"

fun fle :: "npfloat \<Rightarrow> npfloat \<Rightarrow> bool" where
  "fle NaN y = False"
| "fle x NaN = False"
| "fle NInf y = True"
| "fle x PInf = True"
| "fle PInf y = False"
| "fle x NInf = False"
| "fle x y = (rv x \<le> rv y)"

fun flt :: "npfloat \<Rightarrow> npfloat \<Rightarrow> bool" where
  "flt NaN y = False"
| "flt x NaN = False"
| "flt PInf y = False"
| "flt x NInf = False"
| "flt NInf y = True"
| "flt x PInf = True"
| "flt x y = (rv x < rv y)"

definition of_nat_f :: "nat \<Rightarrow> npfloat" where
  \<comment> \<open>a non-negative Python \<^verbatim>\<open>int\<close> used in float arithmetic\<close>
  "of_nat_f k = Fin (real k)"

section \<open>Errors\<close>

datatype error = ValueError string | IndexError | ImportError string | NotImplementedError string

section \<open>The tridiagonal solver\<close>

text \<open>
  \<^verbatim>\<open>_thomas_solve(lower, diag, upper, rhs)\<close> of \<^verbatim>\<open>pde_fixed_grid.py\<close>. The four arguments are
  one-dimensional arrays; \<open>c\<close>, \<open>d\<close>, \<open>b\<close>, \<open>y\<close> are the copies the function works on.
  Reading an array at an index past its end raises \<^verbatim>\<open>IndexError\<close>.
\<close>

fun forward_loop ::
  "nat list \<Rightarrow> npfloat list \<Rightarrow> npfloat list \<Rightarrow> npfloat list \<times> npfloat list
     \<Rightarrow> error + (npfloat list \<times> npfloat list)" where
  "forward_loop [] b c (d, y) = Inr (d, y)"
| "forward_loop (i # is) b c (d, y) =
     (if length b \<le> i - 1 then Inl IndexError
      else let w = fdiv (b ! (i - 1)) (d ! (i - 1)) in
        if length c \<le> i - 1 then Inl IndexError
        else let d' = d[i := fsub (d ! i) (fmul w (c ! (i - 1)))];
                 y' = y[i := fsub (y ! i) (fmul w (y ! (i - 1)))]
             in forward_loop is b c (d', y'))"

fun backward_loop ::
  "nat list \<Rightarrow> npfloat list \<Rightarrow> npfloat list \<Rightarrow> npfloat list \<Rightarrow> npfloat list
     \<Rightarrow> error + npfloat list" where
  "backward_loop [] c d y x = Inr x"
| "backward_loop (i # is) c d y x =
     (if length c \<le> i then Inl IndexError
      else backward_loop is c d y
             (x[i := fdiv (fsub (y ! i) (fmul (c ! i) (x ! (i + 1)))) (d ! i)]))"

definition np_empty :: "nat \<Rightarrow> npfloat list" where
  \<comment> \<open>\<^verbatim>\<open>np.empty(n)\<close>: the contents are arbitrary; the solver writes every entry\<close>
  "np_empty n = replicate n (Fin 0)"

definition thomas_solve ::
  "npfloat list \<Rightarrow> npfloat list \<Rightarrow> npfloat list \<Rightarrow> npfloat list \<Rightarrow> error + npfloat list" where
  "thomas_solve lower diag upper rhs =
     (let n = length diag in
      if length rhs \<noteq> n then Inl (ValueError ''rhs length must match diag length'')
      else
        case forward_loop [1..<n] lower upper (diag, rhs) of
          Inl e \<Rightarrow> Inl e
        | Inr (d, y) \<Rightarrow>
            if n = 0 then Inl IndexError
            else backward_loop (rev [0..<n - 1]) upper d y
                   ((np_empty n)[n - 1 := fdiv (y ! (n - 1)) (d ! (n - 1))]))"


subsection \<open>The sweeps as the specification words them\<close>

text \<open>
  The specification describes the solver by recurrences. \<open>sweep_diag\<close> and \<open>sweep_rhs\<close> are
  the diagonal and the right-hand side after the forward sweep (for \<open>i = 1..n-1\<close>:
  \<open>w = sub[i-1] / diag[i-1]\<close>, \<open>diag[i] -= w * super[i-1]\<close>, \<open>rhs[i] -= w * rhs[i-1]\<close>);
  \<open>sweep_x \<dots> n k\<close> is the entry \<open>x[n-1-k]\<close> of the backward sweep
  (\<open>x[n-1] = rhs[n-1] / diag[n-1]\<close>, then \<open>x[i] = (rhs[i] - super[i] * x[i+1]) / diag[i]\<close>).
\<close>

fun sweep_diag :: "npfloat list \<Rightarrow> npfloat list \<Rightarrow> npfloat list \<Rightarrow> nat \<Rightarrow> npfloat" where
  "sweep_diag sb dg sp 0 = dg ! 0"
| "sweep_diag sb dg sp (Suc i) =
     fsub (dg ! Suc i) (fmul (fdiv (sb ! i) (sweep_diag sb dg sp i)) (sp ! i))"

fun sweep_rhs ::
  "npfloat list \<Rightarrow> npfloat list \<Rightarrow> npfloat list \<Rightarrow> npfloat list \<Rightarrow> nat \<Rightarrow> npfloat" where
  "sweep_rhs sb dg sp rhs 0 = rhs ! 0"
| "sweep_rhs sb dg sp rhs (Suc i) =
     fsub (rhs ! Suc i) (fmul (fdiv (sb ! i) (sweep_diag sb dg sp i)) (sweep_rhs sb dg sp rhs i))"

fun sweep_x ::
  "npfloat list \<Rightarrow> npfloat list \<Rightarrow> npfloat list \<Rightarrow> npfloat list \<Rightarrow> nat \<Rightarrow> nat \<Rightarrow> npfloat" where
  "sweep_x sb dg sp rhs n 0 =
     fdiv (sweep_rhs sb dg sp rhs (n - 1)) (sweep_diag sb dg sp (n - 1))"
| "sweep_x sb dg sp rhs n (Suc k) =
     fdiv (fsub (sweep_rhs sb dg sp rhs (n - 2 - k))
                (fmul (sp ! (n - 2 - k)) (sweep_x sb dg sp rhs n k)))
          (sweep_diag sb dg sp (n - 2 - k))"

definition thomas_spec ::
  "npfloat list \<Rightarrow> npfloat list \<Rightarrow> npfloat list \<Rightarrow> npfloat list \<Rightarrow> npfloat list" where
  "thomas_spec sb dg sp rhs =
     (let n = length dg in map (\<lambda>i. sweep_x sb dg sp rhs n (n - 1 - i)) [0..<n])"

subsection \<open>What a solution is\<close>



section \<open>The solver on a store of arrays\<close>

text \<open>
  numpy arrays are mutable objects that the caller and the solver may share. To speak
  about what a call does to the caller's arrays, the same function is modelled once more
  on an explicit store: a \<open>heap\<close> lists the array objects alive, an array is named by its
  position, \<^verbatim>\<open>astype(float)\<close>, \<^verbatim>\<open>copy()\<close> and \<^verbatim>\<open>np.empty\<close> allocate a new object at the end,
  and an indexed assignment \<^verbatim>\<open>a[i] = v\<close> updates the object in place. A call returns the
  store it leaves behind together with its result (the position of \<open>x\<close>) or its exception.
\<close>

type_synonym addr = nat

type_synonym heap = "npfloat list list"

definition np_astype_float :: "addr \<Rightarrow> heap \<Rightarrow> addr \<times> heap" where
  "np_astype_float a h = (length h, h @ [h ! a])"

definition np_copy :: "addr \<Rightarrow> heap \<Rightarrow> addr \<times> heap" where
  "np_copy a h = (length h, h @ [h ! a])"

definition np_empty_h :: "nat \<Rightarrow> heap \<Rightarrow> addr \<times> heap" where
  "np_empty_h n h = (length h, h @ [np_empty n])"

definition store :: "addr \<Rightarrow> nat \<Rightarrow> npfloat \<Rightarrow> heap \<Rightarrow> heap" where
  \<comment> \<open>\<^verbatim>\<open>a[i] = v\<close>\<close>
  "store a i v h = h[a := (h ! a)[i := v]]"

fun forward_loop_h ::
  "nat list \<Rightarrow> addr \<Rightarrow> addr \<Rightarrow> addr \<Rightarrow> addr \<Rightarrow> heap \<Rightarrow> error option \<times> heap" where
  "forward_loop_h [] b c d y h = (None, h)"
| "forward_loop_h (i # is) b c d y h =
     (if length (h ! b) \<le> i - 1 then (Some IndexError, h)
      else let w = fdiv (h ! b ! (i - 1)) (h ! d ! (i - 1)) in
        if length (h ! c) \<le> i - 1 then (Some IndexError, h)
        else let h1 = store d i (fsub (h ! d ! i) (fmul w (h ! c ! (i - 1)))) h;
                 h2 = store y i (fsub (h1 ! y ! i) (fmul w (h1 ! y ! (i - 1)))) h1
             in forward_loop_h is b c d y h2)"

fun backward_loop_h ::
  "nat list \<Rightarrow> addr \<Rightarrow> addr \<Rightarrow> addr \<Rightarrow> addr \<Rightarrow> heap \<Rightarrow> error option \<times> heap" where
  "backward_loop_h [] c d y x h = (None, h)"
| "backward_loop_h (i # is) c d y x h =
     (if length (h ! c) \<le> i then (Some IndexError, h)
      else backward_loop_h is c d y x
             (store x i (fdiv (fsub (h ! y ! i) (fmul (h ! c ! i) (h ! x ! (i + 1)))) (h ! d ! i)) h))"

definition thomas_solve_h ::
  "addr \<Rightarrow> addr \<Rightarrow> addr \<Rightarrow> addr \<Rightarrow> heap \<Rightarrow> (error + addr) \<times> heap" where
  "thomas_solve_h lower diag upper rhs h =
     (let n = length (h ! diag) in
      if length (h ! rhs) \<noteq> n then (Inl (ValueError ''rhs length must match diag length''), h)
      else
        let (c0, h) = np_astype_float upper h; (c, h) = np_copy c0 h;
            (d0, h) = np_astype_float diag h; (d, h) = np_copy d0 h;
            (b0, h) = np_astype_float lower h; (b, h) = np_copy b0 h;
            (y0, h) = np_astype_float rhs h; (y, h) = np_copy y0 h
        in case forward_loop_h [1..<n] b c d y h of
             (Some e, h) \<Rightarrow> (Inl e, h)
           | (None, h) \<Rightarrow>
               let (x, h) = np_empty_h n h in
               if n = 0 then (Inl IndexError, h)
               else
                 case backward_loop_h (rev [0..<n - 1]) c d y x
                        (store x (n - 1) (fdiv (h ! y ! (n - 1)) (h ! d ! (n - 1))) h) of
                   (Some e, h) \<Rightarrow> (Inl e, h)
                 | (None, h) \<Rightarrow> (Inr x, h))"

section \<open>Configuration and input validation\<close>

text \<open>The constants of \<^verbatim>\<open>config.py\<close> that the pricer reads.\<close>

definition DEFAULT_PRICE_STEPS :: int where
  "DEFAULT_PRICE_STEPS = 200"

definition DEFAULT_TIME_STEPS :: int where
  "DEFAULT_TIME_STEPS = 200"

definition S_MAX_MULTIPLIER :: npfloat where
  "S_MAX_MULTIPLIER = Fin 3"

text \<open>\<^verbatim>\<open>validate_option_inputs\<close> of \<^verbatim>\<open>utils.py\<close>: three checks, in the source's order.\<close>

definition validate_option_inputs :: "npfloat \<Rightarrow> npfloat \<Rightarrow> npfloat \<Rightarrow> npfloat \<Rightarrow> error + unit" where
  "validate_option_inputs S0 K T sigma =
     (if fle S0 (Fin 0) \<or> fle K (Fin 0) then
        Inl (ValueError ''Stock price and strike must be positive'')
      else if fle T (Fin 0) then Inl (ValueError ''Time to maturity must be positive'')
      else if fle sigma (Fin 0) then Inl (ValueError ''Volatility must be positive'')
      else Inr ())"

definition option_type_message :: string where
  \<comment> \<open>the message \<^verbatim>\<open>option_type must be 'call' or 'put'\<close>\<close>
  "option_type_message = ''option_type must be 'call' or 'put'' @ [CHR 0x27]"

definition grid_message :: string where
  "grid_message = ''Need M >= 3 and N >= 1 for a meaningful grid''"

section \<open>Library functions the pricer calls\<close>

text \<open>
  Python's built-in \<^verbatim>\<open>max(a, b)\<close> keeps \<open>a\<close> unless \<open>b > a\<close>. \<^verbatim>\<open>np.maximum\<close> propagates
  NaN. \<^verbatim>\<open>math.exp\<close> is the real exponential on finite values (its overflow is a matter
  of range and outside the model). \<^verbatim>\<open>np.linspace(start, stop, num)\<close> with \<open>num > 1\<close> gives the
  samples \<open>i * step + start\<close> for \<open>step = (stop - start) / (num - 1)\<close> and sets the last one
  to \<open>stop\<close>. \<^verbatim>\<open>np.interp\<close> is not modelled: the pricer takes it as a parameter.
\<close>

definition py_max :: "npfloat \<Rightarrow> npfloat \<Rightarrow> npfloat" where
  "py_max a b = (if flt a b then b else a)"

definition np_maximum :: "npfloat \<Rightarrow> npfloat \<Rightarrow> npfloat" where
  "np_maximum x y = (if x = NaN \<or> y = NaN then NaN else if fle y x then x else y)"

definition math_exp :: "npfloat \<Rightarrow> npfloat" where
  "math_exp x = (case x of Fin a \<Rightarrow> Fin (exp a) | NZero \<Rightarrow> Fin 1 | PInf \<Rightarrow> PInf
                 | NInf \<Rightarrow> Fin 0 | NaN \<Rightarrow> NaN)"

definition np_linspace :: "npfloat \<Rightarrow> npfloat \<Rightarrow> nat \<Rightarrow> npfloat list" where
  "np_linspace start stop num =
     (let step = fdiv (fsub stop start) (of_nat_f (num - 1));
          y = map (\<lambda>i. fadd (fmul (of_nat_f i) step) start) [0..<num]
      in y[num - 1 := stop])"

section \<open>The grid engine\<close>

text \<open>
  \<^verbatim>\<open>price_european_fixed_grid\<close> of \<^verbatim>\<open>pde_fixed_grid.py\<close>. The definitions follow the function
  body from top to bottom; a numpy expression on whole arrays becomes a \<open>map\<close> over the
  entries, a slice becomes \<open>take\<close>, \<open>drop\<close> or \<open>butlast\<close>.
\<close>

definition resolve_Smax :: "npfloat \<Rightarrow> npfloat \<Rightarrow> npfloat option \<Rightarrow> npfloat" where
  "resolve_Smax S0 K Smax =
     (let Smax = (case Smax of Some s \<Rightarrow> s | None \<Rightarrow> fmul S_MAX_MULTIPLIER K) in
      if fle Smax S0 then py_max Smax (fmul (Fin (3/2)) S0) else Smax)"

definition payoff :: "string \<Rightarrow> npfloat \<Rightarrow> npfloat list \<Rightarrow> npfloat list" where
  "payoff option_type K S =
     (if option_type = ''call'' then map (\<lambda>s. np_maximum (fsub s K) (Fin 0)) S
      else map (\<lambda>s. np_maximum (fsub K s) (Fin 0)) S)"

definition interior_nodes :: "npfloat list \<Rightarrow> nat \<Rightarrow> npfloat list" where
  \<comment> \<open>\<^verbatim>\<open>S[np.arange(1, M)]\<close>\<close>
  "interior_nodes S M = map (\<lambda>i. S ! i) [1..<M]"

definition coef_alpha :: "npfloat \<Rightarrow> npfloat list \<Rightarrow> npfloat list" where
  "coef_alpha sigma S_i = map (\<lambda>s. fmul (fmul (fmul (fmul (Fin (1/2)) sigma) sigma) s) s) S_i"

definition coef_beta :: "npfloat \<Rightarrow> npfloat list \<Rightarrow> npfloat list" where
  "coef_beta r S_i = map (\<lambda>s. fmul r s) S_i"

definition coef_A :: "npfloat list \<Rightarrow> npfloat list \<Rightarrow> npfloat \<Rightarrow> npfloat list" where
  "coef_A alpha beta dS =
     map2 (\<lambda>a b. fsub (fdiv a (fmul dS dS)) (fdiv b (fmul (Fin 2) dS))) alpha beta"

definition coef_B :: "npfloat list \<Rightarrow> npfloat \<Rightarrow> npfloat \<Rightarrow> npfloat list" where
  "coef_B alpha r dS = map (\<lambda>a. fsub (fdiv (fmul (Fin (-2)) a) (fmul dS dS)) r) alpha"

definition coef_C :: "npfloat list \<Rightarrow> npfloat list \<Rightarrow> npfloat \<Rightarrow> npfloat list" where
  "coef_C alpha beta dS =
     map2 (\<lambda>a b. fadd (fdiv a (fmul dS dS)) (fdiv b (fmul (Fin 2) dS))) alpha beta"

text \<open>The local variables of the function once the operators are assembled.\<close>

record pde_setup =
  su_option_type :: string
  su_K :: npfloat
  su_r :: npfloat
  su_Smax :: npfloat
  su_M :: nat
  su_dS :: npfloat
  su_dt :: npfloat
  su_S :: "npfloat list"
  su_A :: "npfloat list"
  su_B :: "npfloat list"
  su_C :: "npfloat list"
  lower_L :: "npfloat list"
  diag_L :: "npfloat list"
  upper_L :: "npfloat list"
  lower_R :: "npfloat list"
  diag_R :: "npfloat list"
  upper_R :: "npfloat list"

definition assemble ::
  "npfloat \<Rightarrow> npfloat \<Rightarrow> npfloat \<Rightarrow> npfloat \<Rightarrow> string \<Rightarrow> nat \<Rightarrow> nat \<Rightarrow> npfloat \<Rightarrow> pde_setup" where
  "assemble K T r sigma option_type M N Smax =
     (let dS = fdiv Smax (of_nat_f M);
          dt = fdiv T (of_nat_f N);
          S = np_linspace (Fin 0) Smax (M + 1);
          S_i = interior_nodes S M;
          alpha = coef_alpha sigma S_i;
          beta = coef_beta r S_i;
          A = coef_A alpha beta dS;
          B = coef_B alpha r dS;
          C = coef_C alpha beta dS
      in \<lparr> su_option_type = option_type, su_K = K, su_r = r, su_Smax = Smax, su_M = M,
           su_dS = dS, su_dt = dt, su_S = S, su_A = A, su_B = B, su_C = C,
           lower_L = map (fmul (fmul (Fin (- 1/2)) dt)) (drop 1 A),
           diag_L = map (\<lambda>b. fsub (Fin 1) (fmul (fmul (Fin (1/2)) dt) b)) B,
           upper_L = map (fmul (fmul (Fin (- 1/2)) dt)) (butlast C),
           lower_R = map (fmul (fmul (Fin (1/2)) dt)) (drop 1 A),
           diag_R = map (\<lambda>b. fadd (Fin 1) (fmul (fmul (Fin (1/2)) dt) b)) B,
           upper_R = map (fmul (fmul (Fin (1/2)) dt)) (butlast C) \<rparr>)"

definition boundary :: "pde_setup \<Rightarrow> npfloat \<Rightarrow> npfloat \<times> npfloat" where
  \<comment> \<open>the values at \<open>S = 0\<close> and at \<open>S = Smax\<close> for time to expiry \<open>tau\<close>\<close>
  "boundary su tau =
     (if su_option_type su = ''call'' then
        (Fin 0, fsub (su_Smax su) (fmul (su_K su) (math_exp (fmul (fneg (su_r su)) tau))))
      else
        (fmul (su_K su) (math_exp (fmul (fneg (su_r su)) tau)), Fin 0))"

definition build_rhs ::
  "pde_setup \<Rightarrow> npfloat list \<Rightarrow> npfloat \<Rightarrow> npfloat \<Rightarrow> npfloat \<Rightarrow> npfloat \<Rightarrow> npfloat list" where
  "build_rhs su V_in V0_n V0_np1 VM_n VM_np1 =
     (let rhs = map2 fmul (diag_R su) V_in;
          rhs = take 1 rhs @ map2 fadd (drop 1 rhs) (map2 fmul (lower_R su) (butlast V_in));
          rhs = map2 fadd (butlast rhs) (map2 fmul (upper_R su) (drop 1 V_in)) @ [last rhs];
          rhs = rhs[0 := fadd (rhs ! 0)
                  (fmul (fmul (fmul (Fin (1/2)) (su_dt su)) (su_A su ! 0)) (fadd V0_n V0_np1))];
          rhs = rhs[length rhs - 1 := fadd (last rhs)
                  (fmul (fmul (fmul (Fin (1/2)) (su_dt su)) (last (su_C su))) (fadd VM_n VM_np1))]
      in rhs)"

definition time_step :: "pde_setup \<Rightarrow> nat \<Rightarrow> npfloat list \<Rightarrow> error + npfloat list" where
  "time_step su n V =
     (let M = su_M su;
          tau_n = fmul (of_nat_f n) (su_dt su);
          tau_np1 = fmul (of_nat_f (n + 1)) (su_dt su);
          (V0_n, VM_n) = boundary su tau_n;
          (V0_np1, VM_np1) = boundary su tau_np1;
          V = V[0 := V0_n];
          V = V[M := VM_n];
          V_in = take (M - 1) (drop 1 V);
          rhs = build_rhs su V_in V0_n V0_np1 VM_n VM_np1
      in case thomas_solve (lower_L su) (diag_L su) (upper_L su) rhs of
           Inl e \<Rightarrow> Inl e
         | Inr V_new_in \<Rightarrow>
             (let V = V[0 := V0_np1];
                  V = take 1 V @ V_new_in @ drop M V;
                  V = V[M := VM_np1]
              in Inr V))"

definition step_rhs :: "pde_setup \<Rightarrow> nat \<Rightarrow> npfloat list \<Rightarrow> npfloat list" where
  \<comment> \<open>the right-hand side that step \<open>n\<close> hands to the solver, as \<open>time_step\<close> computes it\<close>
  "step_rhs su n V =
     (let M = su_M su;
          tau_n = fmul (of_nat_f n) (su_dt su);
          tau_np1 = fmul (of_nat_f (n + 1)) (su_dt su);
          (V0_n, VM_n) = boundary su tau_n;
          (V0_np1, VM_np1) = boundary su tau_np1;
          V = V[0 := V0_n];
          V = V[M := VM_n];
          V_in = take (M - 1) (drop 1 V)
      in build_rhs su V_in V0_n V0_np1 VM_n VM_np1)"

fun time_loop ::
  "pde_setup \<Rightarrow> nat list \<Rightarrow> npfloat list \<times> npfloat list list option
     \<Rightarrow> error + (npfloat list \<times> npfloat list list option)" where
  "time_loop su [] (V, surface) = Inr (V, surface)"
| "time_loop su (n # ns) (V, surface) =
     (case time_step su n V of
        Inl e \<Rightarrow> Inl e
      | Inr V' \<Rightarrow> time_loop su ns (V', map_option (\<lambda>s. s[n + 1 := V']) surface))"

record info =
  info_S_grid :: "npfloat list"
  info_V_tau_T :: "npfloat list"
  info_dS :: npfloat
  info_dt :: npfloat
  info_M :: int
  info_N :: int
  info_Smax :: npfloat
  info_surface :: "npfloat list list option"

datatype result = Price npfloat | PriceInfo npfloat info

definition price_european_fixed_grid ::
  "(npfloat \<Rightarrow> npfloat list \<Rightarrow> npfloat list \<Rightarrow> npfloat)
     \<Rightarrow> npfloat \<Rightarrow> npfloat \<Rightarrow> npfloat \<Rightarrow> npfloat \<Rightarrow> npfloat \<Rightarrow> string
     \<Rightarrow> int option \<Rightarrow> int option \<Rightarrow> npfloat option \<Rightarrow> bool \<Rightarrow> error + result" where
  "price_european_fixed_grid np_interp S0 K T r sigma option_type M N Smax return_grid =
     (case validate_option_inputs S0 K T sigma of
        Inl e \<Rightarrow> Inl e
      | Inr _ \<Rightarrow>
          if option_type \<noteq> ''call'' \<and> option_type \<noteq> ''put'' then
            Inl (ValueError option_type_message)
          else
            let M = (case M of Some m \<Rightarrow> m | None \<Rightarrow> DEFAULT_PRICE_STEPS);
                N = (case N of Some n \<Rightarrow> n | None \<Rightarrow> DEFAULT_TIME_STEPS)
            in
              if M < 3 \<or> N < 1 then Inl (ValueError grid_message)
              else
                let Smax = resolve_Smax S0 K Smax;
                    su = assemble K T r sigma option_type (nat M) (nat N) Smax;
                    V = payoff option_type K (su_S su);
                    surface = (if return_grid
                               then Some ((replicate (nat N + 1) (np_empty (nat M + 1)))[0 := V])
                               else None)
                in case time_loop su [0..<nat N] (V, surface) of
                     Inl e \<Rightarrow> Inl e
                   | Inr (V, surface) \<Rightarrow>
                       (let price = np_interp S0 (su_S su) V in
                        if \<not> return_grid then Inr (Price price)
                        else Inr (PriceInfo price
                               \<lparr> info_S_grid = su_S su, info_V_tau_T = V, info_dS = su_dS su,
                                 info_dt = su_dt su, info_M = M, info_N = N, info_Smax = Smax,
                                 info_surface = surface \<rparr>)))"

section \<open>The adaptive time-stepping module\<close>

text \<open>
  \<^verbatim>\<open>pde_adaptive_time.py\<close> has two parts. Its top level runs when the module is imported and
  holds the statement \<^verbatim>\<open>from .config import PDEConfig\<close>; Python raises \<^verbatim>\<open>ImportError\<close> when
  the module imported from does not bind the name. Its one function,
  \<^verbatim>\<open>price_option_adaptive_time\<close>, ignores its arguments and raises \<^verbatim>\<open>NotImplementedError\<close>.
  \<open>config_names\<close> lists the names that \<^verbatim>\<open>config.py\<close> binds.
\<close>

definition config_names :: "string list" where
  "config_names = [''DEFAULT_PRICE_STEPS'', ''DEFAULT_TIME_STEPS'', ''S_MAX_MULTIPLIER'',
     ''ERROR_TOLERANCE'', ''BENCHMARK_RUNS'']"

definition import_from_config :: "string \<Rightarrow> error + unit" where
  "import_from_config name =
     (if name \<in> set config_names then Inr () else Inl (ImportError name))"

definition import_pde_adaptive_time :: "error + unit" where
  \<comment> \<open>the module's top level: \<^verbatim>\<open>from .config import PDEConfig\<close>\<close>
  "import_pde_adaptive_time = import_from_config ''PDEConfig''"

definition price_option_adaptive_time ::
  "npfloat \<Rightarrow> npfloat \<Rightarrow> npfloat \<Rightarrow> npfloat \<Rightarrow> npfloat \<Rightarrow> int \<Rightarrow> string
     \<Rightarrow> (string \<times> npfloat) list \<Rightarrow> error + (string \<times> npfloat) list" where
  "price_option_adaptive_time spot strike rate volatility time_to_expiry num_space_points
       option_type kwargs =
     Inl (NotImplementedError ''Adaptive time-stepping solver not yet implemented'')"

definition call_price_option_adaptive_time ::
  "npfloat \<Rightarrow> npfloat \<Rightarrow> npfloat \<Rightarrow> npfloat \<Rightarrow> npfloat \<Rightarrow> int \<Rightarrow> string
     \<Rightarrow> (string \<times> npfloat) list \<Rightarrow> error + (string \<times> npfloat) list" where
  \<comment> \<open>what a caller gets who imports the module and then calls the function\<close>
  "call_price_option_adaptive_time spot strike rate volatility time_to_expiry num_space_points
       option_type kwargs =
     (case import_pde_adaptive_time of
        Inl e \<Rightarrow> Inl e
      | Inr _ \<Rightarrow> price_option_adaptive_time spot strike rate volatility time_to_expiry
                   num_space_points option_type kwargs)"

section \<open>Arithmetic on finite values\<close>

lemma fadd_Fin: "fadd (Fin a) (Fin b) = Fin (a + b)"
  by (simp add: fadd_def signed_zero_def)

lemma fsub_Fin: "fsub (Fin a) (Fin b) = Fin (a - b)"
  by (simp add: fsub_def fneg_def fadd_def from_real_def signed_zero_def)

lemma fmul_Fin: "fmul (Fin a) (Fin b) = from_real ((a < 0) \<noteq> (b < 0)) (a * b)"
  by (simp add: fmul_def)

lemma fdiv_Fin: "b \<noteq> 0 \<Longrightarrow> fdiv (Fin a) (Fin b) = from_real ((a < 0) \<noteq> (b < 0)) (a / b)"
  by (simp add: fdiv_def)

lemma from_real_nz: "a \<noteq> 0 \<Longrightarrow> from_real s a = Fin a"
  by (simp add: from_real_def)

lemma from_real_pos: "from_real False a = Fin a"
  by (simp add: from_real_def signed_zero_def)

lemmas fin_eval = fadd_Fin fsub_Fin fmul_Fin fdiv_Fin from_real_nz from_real_pos

lemma is_zero_rv: "is_fin x \<Longrightarrow> is_zero x \<longleftrightarrow> rv x = 0"
  by (cases x) auto

lemma fmul_fin: "is_fin x \<Longrightarrow> is_fin y \<Longrightarrow> is_fin (fmul x y) \<and> rv (fmul x y) = rv x * rv y"
  by (cases x; cases y) (auto simp: fmul_def from_real_def signed_zero_def)

lemma fdiv_fin:
  "is_fin x \<Longrightarrow> is_fin y \<Longrightarrow> \<not> is_zero y \<Longrightarrow> is_fin (fdiv x y) \<and> rv (fdiv x y) = rv x / rv y"
  by (cases x; cases y) (auto simp: fdiv_def from_real_def signed_zero_def)

lemma fneg_fin: "is_fin x \<Longrightarrow> is_fin (fneg x) \<and> rv (fneg x) = - rv x"
  by (cases x) (auto simp: fneg_def from_real_def signed_zero_def)

lemma fadd_fin: "is_fin x \<Longrightarrow> is_fin y \<Longrightarrow> is_fin (fadd x y) \<and> rv (fadd x y) = rv x + rv y"
  by (cases x; cases y) (auto simp: fadd_def signed_zero_def)

lemma fsub_fin: "is_fin x \<Longrightarrow> is_fin y \<Longrightarrow> is_fin (fsub x y) \<and> rv (fsub x y) = rv x - rv y"
  using fadd_fin[of x "fneg y"] fneg_fin[of y] by (simp add: fsub_def)

lemma fdiv_by_zero: "is_zero y \<Longrightarrow> \<not> is_fin (fdiv x y)"
  by (cases x; cases y) (auto simp: fdiv_def signed_inf_def)

section \<open>The solver performs the specified sweeps\<close>

lemma forward_loop_sweep:
  assumes "1 \<le> k" "k \<le> n" "length d = n" "length y = n"
    and "n - 1 \<le> length b" "n - 1 \<le> length c"
    and "\<forall>j<k. d ! j = sweep_diag b d0 c j" "\<forall>j. k \<le> j \<and> j < n \<longrightarrow> d ! j = d0 ! j"
    and "\<forall>j<k. y ! j = sweep_rhs b d0 c y0 j" "\<forall>j. k \<le> j \<and> j < n \<longrightarrow> y ! j = y0 ! j"
  shows "\<exists>d' y'. forward_loop [k..<n] b c (d, y) = Inr (d', y') \<and> length d' = n \<and> length y' = n
           \<and> (\<forall>j<n. d' ! j = sweep_diag b d0 c j) \<and> (\<forall>j<n. y' ! j = sweep_rhs b d0 c y0 j)"
  using assms
proof (induction "n - k" arbitrary: k d y)
  case 0
  then have "k = n" by simp
  with 0 show ?case by simp
next
  case (Suc m)
  then have kn: "k < n" by linarith
  obtain k' where k': "k = Suc k'" using Suc.prems(1) by (cases k) auto
  let ?w = "fdiv (b ! k') (d ! k')"
  let ?d = "d[k := fsub (d ! k) (fmul ?w (c ! k'))]"
  let ?y = "y[k := fsub (y ! k) (fmul ?w (y ! k'))]"
  have bl: "\<not> length b \<le> k'" "\<not> length c \<le> k'"
    using kn k' Suc.prems(5,6) by linarith+
  have step: "forward_loop [k..<n] b c (d, y) = forward_loop [Suc k..<n] b c (?d, ?y)"
    using kn k' bl by (simp add: upt_conv_Cons Let_def)
  have dk': "d ! k' = sweep_diag b d0 c k'" using Suc.prems(7) k' by simp
  have yk': "y ! k' = sweep_rhs b d0 c y0 k'" using Suc.prems(9) k' by simp
  have dk: "d ! k = d0 ! k" using Suc.prems(8) kn by simp
  have yk: "y ! k = y0 ! k" using Suc.prems(10) kn by simp
  have d1: "\<forall>j<Suc k. ?d ! j = sweep_diag b d0 c j"
    using Suc.prems(3,7) kn k' dk dk' by (auto simp: nth_list_update less_Suc_eq)
  have d2: "\<forall>j. Suc k \<le> j \<and> j < n \<longrightarrow> ?d ! j = d0 ! j"
    using Suc.prems(8) by (auto simp: nth_list_update)
  have y1: "\<forall>j<Suc k. ?y ! j = sweep_rhs b d0 c y0 j"
    using Suc.prems(4,9) kn k' yk yk' dk' by (auto simp: nth_list_update less_Suc_eq)
  have y2: "\<forall>j. Suc k \<le> j \<and> j < n \<longrightarrow> ?y ! j = y0 ! j"
    using Suc.prems(10) by (auto simp: nth_list_update)
  have "m = n - Suc k" using Suc.hyps(2) by simp
  from Suc.hyps(1)[OF this _ _ _ _ Suc.prems(5,6) d1 d2 y1 y2] kn Suc.prems(3,4)
  show ?case unfolding step by simp
qed

lemma backward_loop_sweep:
  assumes "m < n" "length x = n" "n - 1 \<le> length c"
    and "\<forall>j. m \<le> j \<and> j < n \<longrightarrow> x ! j = sweep_x sb dg c rhs n (n - 1 - j)"
    and "\<forall>j<n. d ! j = sweep_diag sb dg c j" "\<forall>j<n. y ! j = sweep_rhs sb dg c rhs j"
  shows "\<exists>x'. backward_loop (rev [0..<m]) c d y x = Inr x' \<and> length x' = n
           \<and> (\<forall>j<n. x' ! j = sweep_x sb dg c rhs n (n - 1 - j))"
  using assms
proof (induction m arbitrary: x)
  case 0
  then show ?case by simp
next
  case (Suc m)
  let ?x = "x[m := fdiv (fsub (y ! m) (fmul (c ! m) (x ! (m + 1)))) (d ! m)]"
  have step: "backward_loop (rev [0..<Suc m]) c d y x = backward_loop (rev [0..<m]) c d y ?x"
    using Suc.prems(1,3) by simp
  have idx: "n - 1 - m = Suc (n - 1 - Suc m)" "n - 2 - (n - 1 - Suc m) = m"
    using Suc.prems(1) by auto
  have xm: "?x ! m = sweep_x sb dg c rhs n (n - 1 - m)"
    using Suc.prems(1,2,4,5,6) idx by simp
  have inv: "\<forall>j. m \<le> j \<and> j < n \<longrightarrow> ?x ! j = sweep_x sb dg c rhs n (n - 1 - j)"
  proof (intro allI impI)
    fix j assume j: "m \<le> j \<and> j < n"
    show "?x ! j = sweep_x sb dg c rhs n (n - 1 - j)"
    proof (cases "j = m")
      case True then show ?thesis using xm by simp
    next
      case False
      then have "Suc m \<le> j" using j by simp
      then show ?thesis using Suc.prems(4) j False by (simp add: nth_list_update)
    qed
  qed
  have "m < n" using Suc.prems(1) by simp
  from Suc.IH[OF this _ Suc.prems(3) inv Suc.prems(5,6)] Suc.prems(2)
  show ?case unfolding step by simp
qed

lemma thomas_solve_refines:
  assumes "length rhs = length diag" "0 < length diag"
    and "length diag - 1 \<le> length lower" "length diag - 1 \<le> length upper"
  shows "thomas_solve lower diag upper rhs = Inr (thomas_spec lower diag upper rhs)"
proof -
  let ?n = "length diag"
  have "\<exists>d' y'. forward_loop [1..<?n] lower upper (diag, rhs) = Inr (d', y') \<and> length d' = ?n
          \<and> length y' = ?n \<and> (\<forall>j<?n. d' ! j = sweep_diag lower diag upper j)
          \<and> (\<forall>j<?n. y' ! j = sweep_rhs lower diag upper rhs j)"
  proof (rule forward_loop_sweep)
    show "1 \<le> length diag" using assms(2) by linarith
  qed (use assms in auto)
  then obtain d' y' where fw: "forward_loop [1..<?n] lower upper (diag, rhs) = Inr (d', y')"
    and len: "length d' = ?n" "length y' = ?n"
    and d': "\<forall>j<?n. d' ! j = sweep_diag lower diag upper j"
    and y': "\<forall>j<?n. y' ! j = sweep_rhs lower diag upper rhs j"
    by blast
  let ?x0 = "(np_empty ?n)[?n - 1 := fdiv (y' ! (?n - 1)) (d' ! (?n - 1))]"
  have x0: "\<forall>j. ?n - 1 \<le> j \<and> j < ?n \<longrightarrow> ?x0 ! j = sweep_x lower diag upper rhs ?n (?n - 1 - j)"
  proof (intro allI impI)
    fix j assume "?n - 1 \<le> j \<and> j < ?n"
    then have j: "j = ?n - 1" by linarith
    show "?x0 ! j = sweep_x lower diag upper rhs ?n (?n - 1 - j)"
      using assms(2) d' y' by (simp add: j np_empty_def)
  qed
  have "\<exists>x'. backward_loop (rev [0..<?n - 1]) upper d' y' ?x0 = Inr x' \<and> length x' = ?n
          \<and> (\<forall>j<?n. x' ! j = sweep_x lower diag upper rhs ?n (?n - 1 - j))"
    using assms(2,4) x0 d' y' by (intro backward_loop_sweep) (auto simp: np_empty_def)
  then obtain x' where bw: "backward_loop (rev [0..<?n - 1]) upper d' y' ?x0 = Inr x'"
    and lx: "length x' = ?n"
    and x': "\<forall>j<?n. x' ! j = sweep_x lower diag upper rhs ?n (?n - 1 - j)"
    by blast
  have "x' = thomas_spec lower diag upper rhs"
    using lx x' by (intro nth_equalityI) (auto simp: thomas_spec_def Let_def)
  then show ?thesis
    using assms(1,2) fw bw by (simp add: thomas_solve_def)
qed


lemma thomas_solve_example:
  "thomas_solve [Fin (-1), Fin (-1)] [Fin 2, Fin 2, Fin 2] [Fin (-1), Fin (-1)] [Fin 1, Fin 0, Fin 1]
     = Inr [Fin 1, Fin 1, Fin 1]"
  by (simp add: thomas_solve_def np_empty_def upt_rec fin_eval)

lemma forward_loop_error: "forward_loop is b c s = Inl e \<Longrightarrow> e = IndexError"
  by (induction "is" b c s rule: forward_loop.induct) (auto simp: Let_def split: if_splits)

lemma backward_loop_error: "backward_loop is c d y x = Inl e \<Longrightarrow> e = IndexError"
  by (induction "is" c d y x rule: backward_loop.induct) (auto split: if_splits)

lemma thomas_solve_size_mismatch:
  "thomas_solve lower diag upper rhs = Inl (ValueError ''rhs length must match diag length'')
     \<longleftrightarrow> length rhs \<noteq> length diag"
  by (auto simp: thomas_solve_def Let_def split: sum.splits prod.splits if_splits
      dest: forward_loop_error backward_loop_error)

lemma thomas_spec_length: "length (thomas_spec sb dg sp rhs) = length dg"
  by (simp add: thomas_spec_def Let_def)

lemma thomas_spec_nth:
  assumes "i < length dg"
  shows "thomas_spec sb dg sp rhs ! i =
     fdiv (if Suc i = length dg then sweep_rhs sb dg sp rhs i
           else fsub (sweep_rhs sb dg sp rhs i) (fmul (sp ! i) (thomas_spec sb dg sp rhs ! Suc i)))
          (sweep_diag sb dg sp i)"
proof (cases "Suc i = length dg")
  case True
  then have "length dg - 1 - i = 0" "length dg - 1 = i" by auto
  then show ?thesis using assms True by (simp add: thomas_spec_def Let_def)
next
  case False
  then obtain k where k: "length dg - 1 - i = Suc k" using assms by (cases "length dg - 1 - i") auto
  then have "length dg - 2 - k = i" "length dg - 1 - Suc i = k" using assms by auto
  then show ?thesis using assms False k by (simp add: thomas_spec_def Let_def)
qed








lemma sweep_diag_take:
  "i \<le> m \<Longrightarrow> sweep_diag (take m l) d (take m u) i = sweep_diag l d u i"
  by (induction i) simp_all

lemma sweep_rhs_take:
  "i \<le> m \<Longrightarrow> sweep_rhs (take m l) d (take m u) r i = sweep_rhs l d u r i"
  by (induction i) (simp_all add: sweep_diag_take)

lemma sweep_x_take:
  "0 < n \<Longrightarrow> k < n \<Longrightarrow> m = n - 1 \<Longrightarrow>
   sweep_x (take m l) d (take m u) r n k = sweep_x l d u r n k"
  by (induction k) (simp_all add: sweep_diag_take sweep_rhs_take)

lemma thomas_spec_take:
  "thomas_spec (take (length d - 1) l) d (take (length d - 1) u) r = thomas_spec l d u r"
proof -
  have "sweep_x (take (length d - 1) l) d (take (length d - 1) u) r (length d) (length d - 1 - i)
      = sweep_x l d u r (length d) (length d - 1 - i)" if "i < length d" for i
    using that by (intro sweep_x_take) auto
  then show ?thesis by (simp add: thomas_spec_def Let_def del: One_nat_def)
qed

lemma thomas_solve_take:
  assumes "length rhs = length diag"
    and "length diag - 1 \<le> length lower" "length diag - 1 \<le> length upper"
  shows "thomas_solve (take (length diag - 1) lower) diag (take (length diag - 1) upper) rhs
           = thomas_solve lower diag upper rhs"
proof (cases "length diag = 0")
  case True
  then show ?thesis using assms(1) by (simp add: thomas_solve_def)
next
  case False
  then have n: "0 < length diag" by simp
  have "thomas_solve (take (length diag - 1) lower) diag (take (length diag - 1) upper) rhs
      = Inr (thomas_spec (take (length diag - 1) lower) diag (take (length diag - 1) upper) rhs)"
    using assms n by (intro thomas_solve_refines) simp_all
  moreover have "thomas_solve lower diag upper rhs = Inr (thomas_spec lower diag upper rhs)"
    using assms n by (intro thomas_solve_refines) simp_all
  ultimately show ?thesis using thomas_spec_take[of diag lower upper rhs] by simp
qed

lemma thomas_spec_nonfinite:
  assumes "i < length dg" "is_zero (sweep_diag sb dg sp i)"
  shows "\<not> is_fin (thomas_spec sb dg sp rhs ! i)"
  unfolding thomas_spec_nth[OF assms(1)] using assms(2) by (rule fdiv_by_zero)

lemma zero_pivot_example:
  "thomas_solve [Fin 1] [Fin 0, Fin 1] [Fin 1] [Fin 1, Fin 1] = Inr [NaN, NaN]"
  by (simp add: thomas_solve_def np_empty_def upt_rec fdiv_def fsub_def fmul_def fadd_def fneg_def
      from_real_def signed_inf_def)

text \<open>
  C2. For arrays of the contract's sizes (sub- and super-diagonal of \<open>n - 1\<close> entries, main
  diagonal and right-hand side of \<open>n\<close> entries), \<open>_thomas_solve\<close> returns exactly the vector
  that the specified forward sweep followed by the specified backward sweep produces; and
  for the system with diagonal \<open>{2,2,2}\<close>, sub- and super-diagonal \<open>{-1,-1}\<close> and right-hand
  side \<open>{1,0,1}\<close> it returns \<open>{1,1,1}\<close>.
\<close>

theorem thomas_solve_performs_sweeps:
  "(\<forall>lower diag upper rhs.
      length rhs = length diag \<and> Suc (length lower) = length diag \<and> Suc (length upper) = length diag
      \<longrightarrow> thomas_solve lower diag upper rhs = Inr (thomas_spec lower diag upper rhs))
   \<and> thomas_solve [Fin (-1), Fin (-1)] [Fin 2, Fin 2, Fin 2] [Fin (-1), Fin (-1)]
        [Fin 1, Fin 0, Fin 1] = Inr [Fin 1, Fin 1, Fin 1]"
proof (intro conjI allI impI)
  fix lower diag upper rhs :: "npfloat list"
  assume a: "length rhs = length diag \<and> Suc (length lower) = length diag
    \<and> Suc (length upper) = length diag"
  then have "0 < length diag" "length diag - 1 \<le> length lower" "length diag - 1 \<le> length upper"
    by linarith+
  with a show "thomas_solve lower diag upper rhs = Inr (thomas_spec lower diag upper rhs)"
    by (intro thomas_solve_refines) auto
qed (rule thomas_solve_example)

theorem thomas_solve_performs_sweeps_witness:
  "length [Fin 1, Fin 0, Fin 1] = length [Fin 2, Fin 2, Fin 2 :: npfloat]
   \<and> Suc (length [Fin (-1), Fin (-1) :: npfloat]) = length [Fin 2, Fin 2, Fin 2 :: npfloat]
   \<and> thomas_spec [Fin (-1), Fin (-1)] [Fin 2, Fin 2, Fin 2] [Fin (-1), Fin (-1)]
        [Fin 1, Fin 0, Fin 1] = [Fin 1, Fin 1, Fin 1]"
proof -
  let ?l = "[Fin (-1), Fin (-1)]" and ?d = "[Fin 2, Fin 2, Fin 2]" and ?r = "[Fin 1, Fin 0, Fin 1]"
  from thomas_solve_performs_sweeps
  have "length ?r = length ?d \<and> Suc (length ?l) = length ?d \<and> Suc (length ?l) = length ?d
      \<longrightarrow> thomas_solve ?l ?d ?l ?r = Inr (thomas_spec ?l ?d ?l ?r)"
    by blast
  then have "thomas_solve ?l ?d ?l ?r = Inr (thomas_spec ?l ?d ?l ?r)"
    by simp
  moreover from thomas_solve_performs_sweeps
  have "thomas_solve ?l ?d ?l ?r = Inr [Fin 1, Fin 1, Fin 1]"
    by (rule conjunct2)
  ultimately show ?thesis by simp
qed



text \<open>
  C7 (as the code behaves). A pivot that is exactly zero raises nothing: numpy's division
  yields an infinity or a NaN. For arrays of the contract's sizes the solver still returns
  a vector of length \<open>n\<close>, and its entry at the index of a zero pivot is not finite.
\<close>

theorem thomas_solve_zero_pivot:
  assumes "length rhs = length diag" "Suc (length lower) = length diag"
    and "Suc (length upper) = length diag"
    and "i < length diag" "is_zero (sweep_diag lower diag upper i)"
  shows "\<exists>x. thomas_solve lower diag upper rhs = Inr x \<and> length x = length diag
           \<and> \<not> is_fin (x ! i)"
proof -
  have "thomas_solve lower diag upper rhs = Inr (thomas_spec lower diag upper rhs)"
    using assms(1,2,3) by (intro thomas_solve_refines) linarith+
  then show ?thesis
    using thomas_spec_nonfinite[OF assms(4,5)] by (simp add: thomas_spec_length)
qed

theorem thomas_solve_zero_pivot_witness:
  "is_zero (sweep_diag [Fin 1] [Fin 0, Fin 1] [Fin 1] 0)
   \<and> (\<exists>x. thomas_solve [Fin 1] [Fin 0, Fin 1] [Fin 1] [Fin 1, Fin 1] = Inr x \<and> length x = 2
        \<and> \<not> is_fin (x ! 0))"
  using thomas_solve_zero_pivot[of "[Fin 1, Fin 1]" "[Fin 0, Fin 1]" "[Fin 1]" "[Fin 1]" 0]
  by (simp add: numeral_2_eq_2)

theorem thomas_solve_zero_pivot_counterexample:
  "is_zero (sweep_diag [Fin 1] [Fin 0, Fin 1] [Fin 1] 0)
   \<and> thomas_solve [Fin 1] [Fin 0, Fin 1] [Fin 1] [Fin 1, Fin 1] = Inr [NaN, NaN]"
  using zero_pivot_example by simp

text \<open>
  C10. The solver checks only the right-hand side's length against the diagonal's. When
  these agree, sub- and super-diagonal arrays with \<open>n - 1\<close> entries or more are accepted:
  the result is the one for their first \<open>n - 1\<close> entries, no size-mismatch error is raised,
  and for \<open>n > 0\<close> a vector of length \<open>n\<close> is returned. The size-mismatch error is raised
  exactly when the right-hand side's length differs from the diagonal's.
\<close>

theorem thomas_solve_ignores_extra_entries:
  "(length rhs = length diag \<and> length diag - 1 \<le> length lower \<and> length diag - 1 \<le> length upper
      \<longrightarrow> thomas_solve lower diag upper rhs
            = thomas_solve (take (length diag - 1) lower) diag (take (length diag - 1) upper) rhs
          \<and> (0 < length diag \<longrightarrow>
               (\<exists>x. thomas_solve lower diag upper rhs = Inr x \<and> length x = length diag)))
   \<and> (thomas_solve lower diag upper rhs = Inl (ValueError ''rhs length must match diag length'')
        \<longleftrightarrow> length rhs \<noteq> length diag)"
proof (intro conjI impI)
  assume a: "length rhs = length diag \<and> length diag - 1 \<le> length lower
    \<and> length diag - 1 \<le> length upper"
  then show "thomas_solve lower diag upper rhs
      = thomas_solve (take (length diag - 1) lower) diag (take (length diag - 1) upper) rhs"
    using thomas_solve_take[of rhs diag lower upper] by simp
  assume "0 < length diag"
  with a have "thomas_solve lower diag upper rhs = Inr (thomas_spec lower diag upper rhs)"
    by (intro thomas_solve_refines) simp_all
  then show "\<exists>x. thomas_solve lower diag upper rhs = Inr x \<and> length x = length diag"
    by (simp add: thomas_spec_length)
qed (rule thomas_solve_size_mismatch)

theorem thomas_solve_ignores_extra_entries_witness:
  "length [Fin 1, Fin 0, Fin 1] = length [Fin 2, Fin 2, Fin 2 :: npfloat]
   \<and> length [Fin 2, Fin 2, Fin 2 :: npfloat] - 1 \<le> length [Fin (-1), Fin (-1), Fin 7, NaN]
   \<and> thomas_solve [Fin (-1), Fin (-1), Fin 7, NaN] [Fin 2, Fin 2, Fin 2]
        [Fin (-1), Fin (-1), PInf] [Fin 1, Fin 0, Fin 1] = Inr [Fin 1, Fin 1, Fin 1]"
  using thomas_solve_ignores_extra_entries[of "[Fin 1, Fin 0, Fin 1]" "[Fin 2, Fin 2, Fin 2]"
      "[Fin (-1), Fin (-1), Fin 7, NaN]" "[Fin (-1), Fin (-1), PInf]"]
    thomas_solve_example
  by simp

section \<open>The solver writes to its own copies only\<close>

lemma take_store:
  "n \<le> a \<Longrightarrow> take n (store a i v h) = take n h"
  by (simp add: store_def)

lemma forward_loop_h_frame:
  "n \<le> d \<Longrightarrow> n \<le> y \<Longrightarrow> take n (snd (forward_loop_h is b c d y h)) = take n h"
  by (induction "is" b c d y h rule: forward_loop_h.induct) (simp_all add: Let_def take_store)

lemma backward_loop_h_frame:
  "n \<le> x \<Longrightarrow> take n (snd (backward_loop_h is c d y x h)) = take n h"
  by (induction "is" c d y x h rule: backward_loop_h.induct) (simp_all add: take_store)

lemma forward_loop_h_length:
  "length (snd (forward_loop_h is b c d y h)) = length h"
  by (induction "is" b c d y h rule: forward_loop_h.induct) (simp_all add: Let_def store_def)

lemma thomas_solve_h_frame:
  "take (length h) (snd (thomas_solve_h lower diag upper rhs h)) = h"
proof (cases "length (h ! rhs) = length (h ! diag)")
  case False
  then show ?thesis by (simp add: thomas_solve_h_def)
next
  case True
  let ?n = "length (h ! diag)"
  define s1 where "s1 = np_astype_float upper h"
  define s2 where "s2 = np_copy (fst s1) (snd s1)"
  define s3 where "s3 = np_astype_float diag (snd s2)"
  define s4 where "s4 = np_copy (fst s3) (snd s3)"
  define s5 where "s5 = np_astype_float lower (snd s4)"
  define s6 where "s6 = np_copy (fst s5) (snd s5)"
  define s7 where "s7 = np_astype_float rhs (snd s6)"
  define s8 where "s8 = np_copy (fst s7) (snd s7)"
  note defs = s1_def s2_def s3_def s4_def s5_def s6_def s7_def s8_def
  have addrs: "length h \<le> fst s4" "length h \<le> fst s8"
    by (simp_all add: defs np_astype_float_def np_copy_def)
  have h8: "take (length h) (snd s8) = h" "length h \<le> length (snd s8)"
    by (simp_all add: defs np_astype_float_def np_copy_def)
  define fw where "fw = forward_loop_h [1..<?n] (fst s6) (fst s2) (fst s4) (fst s8) (snd s8)"
  have h9: "take (length h) (snd fw) = h" "length h \<le> length (snd fw)"
    using forward_loop_h_frame[OF addrs, of "[1..<?n]" "fst s6" "fst s2" "snd s8"] h8
    by (simp_all add: fw_def forward_loop_h_length)
  define s9 where "s9 = np_empty_h ?n (snd fw)"
  have s9: "take (length h) (snd s9) = h" "length h \<le> fst s9"
    using h9 by (simp_all add: s9_def np_empty_h_def)
  define bw where "bw = backward_loop_h (rev [0..<?n - 1]) (fst s2) (fst s4) (fst s8) (fst s9)
    (store (fst s9) (?n - 1) (fdiv (snd s9 ! fst s8 ! (?n - 1)) (snd s9 ! fst s4 ! (?n - 1)))
       (snd s9))"
  have h11: "take (length h) (snd bw) = h"
    using backward_loop_h_frame[OF s9(2)] s9 by (simp add: bw_def take_store)
  have unf: "thomas_solve_h lower diag upper rhs h =
    (case fst fw of Some e \<Rightarrow> (Inl e, snd fw)
     | None \<Rightarrow> if ?n = 0 then (Inl IndexError, snd s9)
         else (case fst bw of Some e \<Rightarrow> (Inl e, snd bw) | None \<Rightarrow> (Inr (fst s9), snd bw)))"
    using True
    by (simp add: thomas_solve_h_def Let_def case_prod_beta defs fw_def s9_def bw_def
        split: option.splits)
  show ?thesis
    unfolding unf using h9 s9 h11 by (simp split: option.splits)
qed

subsection \<open>The store model computes what the value model computes\<close>

text \<open>
  When the four arguments name arrays of the store, a call on the store raises the
  exception or returns (at a new position) the vector that \<open>thomas_solve\<close> gives for their
  contents. The two models of the function agree.
\<close>

lemma forward_loop_h_sim:
  assumes "b < length h" "c < length h" "d < length h" "y < length h"
    and "d \<noteq> y" "d \<noteq> b" "d \<noteq> c" "y \<noteq> b" "y \<noteq> c"
  shows "forward_loop_h is b c d y h =
     (case forward_loop is (h ! b) (h ! c) (h ! d, h ! y) of
        Inl e \<Rightarrow> (Some e, snd (forward_loop_h is b c d y h))
      | Inr (d', y') \<Rightarrow> (None, h[d := d', y := y']))"
  using assms
proof (induction "is" arbitrary: h)
  case Nil
  then show ?case by (simp add: list_update_same_conv)
next
  case (Cons i "is")
  show ?case
  proof (cases "length (h ! b) \<le> i - 1 \<or> length (h ! c) \<le> i - 1")
    case True
    then show ?thesis by (auto simp: Let_def)
  next
    case False
    let ?w = "fdiv (h ! b ! (i - 1)) (h ! d ! (i - 1))"
    let ?h1 = "store d i (fsub (h ! d ! i) (fmul ?w (h ! c ! (i - 1)))) h"
    define h2 where "h2 = store y i (fsub (?h1 ! y ! i) (fmul ?w (?h1 ! y ! (i - 1)))) ?h1"
    have h2: "h2 ! b = h ! b" "h2 ! c = h ! c"
      "h2 ! d = (h ! d)[i := fsub (h ! d ! i) (fmul ?w (h ! c ! (i - 1)))]"
      "h2 ! y = (h ! y)[i := fsub (h ! y ! i) (fmul ?w (h ! y ! (i - 1)))]"
      "length h2 = length h"
      using Cons.prems by (simp_all add: h2_def store_def)
    have upd: "h2[d := d', y := y'] = h[d := d', y := y']" for d' y'
      using Cons.prems by (simp add: h2_def store_def list_update_swap[of y d])
    have IH: "forward_loop_h is b c d y h2 =
      (case forward_loop is (h2 ! b) (h2 ! c) (h2 ! d, h2 ! y) of
         Inl e \<Rightarrow> (Some e, snd (forward_loop_h is b c d y h2))
       | Inr (d', y') \<Rightarrow> (None, h2[d := d', y := y']))"
      using Cons.prems h2(5) by (intro Cons.IH) simp_all
    have l: "forward_loop_h (i # is) b c d y h = forward_loop_h is b c d y h2"
      using False by (simp add: Let_def h2_def)
    have r: "forward_loop (i # is) (h ! b) (h ! c) (h ! d, h ! y) =
      forward_loop is (h2 ! b) (h2 ! c) (h2 ! d, h2 ! y)"
      unfolding h2(1-4) using False by (simp add: Let_def)
    show ?thesis
      unfolding l r by (subst IH) (simp add: upd split: sum.splits prod.splits)
  qed
qed

lemma backward_loop_h_sim:
  assumes "c < length h" "d < length h" "y < length h" "x < length h"
    and "x \<noteq> c" "x \<noteq> d" "x \<noteq> y"
  shows "backward_loop_h is c d y x h =
     (case backward_loop is (h ! c) (h ! d) (h ! y) (h ! x) of
        Inl e \<Rightarrow> (Some e, snd (backward_loop_h is c d y x h))
      | Inr x' \<Rightarrow> (None, h[x := x']))"
  using assms
proof (induction "is" arbitrary: h)
  case Nil
  then show ?case by (simp add: list_update_same_conv)
next
  case (Cons i "is")
  show ?case
  proof (cases "length (h ! c) \<le> i")
    case True
    then show ?thesis by simp
  next
    case False
    let ?v = "fdiv (fsub (h ! y ! i) (fmul (h ! c ! i) (h ! x ! (i + 1)))) (h ! d ! i)"
    define h1 where "h1 = store x i ?v h"
    have h1: "h1 ! c = h ! c" "h1 ! d = h ! d" "h1 ! y = h ! y" "h1 ! x = (h ! x)[i := ?v]"
      "length h1 = length h"
      using Cons.prems by (simp_all add: h1_def store_def)
    have upd: "h1[x := x'] = h[x := x']" for x'
      by (simp add: h1_def store_def)
    have IH: "backward_loop_h is c d y x h1 =
      (case backward_loop is (h1 ! c) (h1 ! d) (h1 ! y) (h1 ! x) of
         Inl e \<Rightarrow> (Some e, snd (backward_loop_h is c d y x h1))
       | Inr x' \<Rightarrow> (None, h1[x := x']))"
      using Cons.prems h1(5) by (intro Cons.IH) simp_all
    have l: "backward_loop_h (i # is) c d y x h = backward_loop_h is c d y x h1"
      using False by (simp add: h1_def)
    have r: "backward_loop (i # is) (h ! c) (h ! d) (h ! y) (h ! x) =
      backward_loop is (h1 ! c) (h1 ! d) (h1 ! y) (h1 ! x)"
      unfolding h1(1-4) using False by simp
    show ?thesis
      unfolding l r by (subst IH) (simp add: upd split: sum.splits)
  qed
qed


lemma thomas_solve_h_steps:
  assumes "length (h ! rhs) = length (h ! diag)" and "n = length (h ! diag)"
    and "s1 = np_astype_float upper h" and "s2 = np_copy (fst s1) (snd s1)"
    and "s3 = np_astype_float diag (snd s2)" and "s4 = np_copy (fst s3) (snd s3)"
    and "s5 = np_astype_float lower (snd s4)" and "s6 = np_copy (fst s5) (snd s5)"
    and "s7 = np_astype_float rhs (snd s6)" and "s8 = np_copy (fst s7) (snd s7)"
    and "fw = forward_loop_h [1..<n] (fst s6) (fst s2) (fst s4) (fst s8) (snd s8)"
    and "s9 = np_empty_h n (snd fw)"
    and "bw = backward_loop_h (rev [0..<n - 1]) (fst s2) (fst s4) (fst s8) (fst s9)
          (store (fst s9) (n - 1) (fdiv (snd s9 ! fst s8 ! (n - 1)) (snd s9 ! fst s4 ! (n - 1)))
             (snd s9))"
  shows "thomas_solve_h lower diag upper rhs h =
    (case fst fw of Some e \<Rightarrow> (Inl e, snd fw)
     | None \<Rightarrow> if n = 0 then (Inl IndexError, snd s9)
         else (case fst bw of Some e \<Rightarrow> (Inl e, snd bw) | None \<Rightarrow> (Inr (fst s9), snd bw)))"
  using assms(1)
  by (simp add: thomas_solve_h_def Let_def case_prod_beta assms(2-) split: option.splits)

lemma thomas_solve_h_result:
  assumes "lower < length h" "diag < length h" "upper < length h" "rhs < length h"
  shows "case thomas_solve (h ! lower) (h ! diag) (h ! upper) (h ! rhs) of
           Inl e \<Rightarrow> fst (thomas_solve_h lower diag upper rhs h) = Inl e
         | Inr x \<Rightarrow> (\<exists>a. fst (thomas_solve_h lower diag upper rhs h) = Inr a
                       \<and> snd (thomas_solve_h lower diag upper rhs h) ! a = x)"
proof (cases "length (h ! rhs) = length (h ! diag)")
  case False
  then show ?thesis by (simp add: thomas_solve_h_def thomas_solve_def)
next
  case True
  let ?n = "length (h ! diag)"
  let ?L = "h ! lower" and ?D = "h ! diag" and ?U = "h ! upper" and ?R = "h ! rhs"
  define m where "m = length h"
  define h8 where "h8 = h @ [?U, ?U, ?D, ?D, ?L, ?L, ?R, ?R]"
  define b c d y x where "b = m + 5" and "c = m + 1" and "d = m + 3" and "y = m + 7"
    and "x = m + 8"
  note a = b_def c_def d_def y_def x_def
  define s1 where "s1 = np_astype_float upper h"
  define s2 where "s2 = np_copy (fst s1) (snd s1)"
  define s3 where "s3 = np_astype_float diag (snd s2)"
  define s4 where "s4 = np_copy (fst s3) (snd s3)"
  define s5 where "s5 = np_astype_float lower (snd s4)"
  define s6 where "s6 = np_copy (fst s5) (snd s5)"
  define s7 where "s7 = np_astype_float rhs (snd s6)"
  define s8 where "s8 = np_copy (fst s7) (snd s7)"
  note defs = s1_def s2_def s3_def s4_def s5_def s6_def s7_def s8_def
  have s: "fst s6 = b" "fst s2 = c" "fst s4 = d" "fst s8 = y" "snd s8 = h8"
    using assms
    by (simp_all add: defs np_astype_float_def np_copy_def nth_append a m_def h8_def)
  have h8: "h8 ! b = ?L" "h8 ! c = ?U" "h8 ! d = ?D" "h8 ! y = ?R" "length h8 = m + 8"
    by (simp_all add: h8_def a m_def nth_append)
  define fw where "fw = forward_loop_h [1..<?n] b c d y h8"
  define s9 where "s9 = np_empty_h ?n (snd fw)"
  define bw where "bw = backward_loop_h (rev [0..<?n - 1]) c d y (fst s9)
          (store (fst s9) (?n - 1) (fdiv (snd s9 ! y ! (?n - 1)) (snd s9 ! d ! (?n - 1)))
             (snd s9))"
  have unf: "thomas_solve_h lower diag upper rhs h =
    (case fst fw of Some e \<Rightarrow> (Inl e, snd fw)
     | None \<Rightarrow> if ?n = 0 then (Inl IndexError, snd s9)
         else (case fst bw of Some e \<Rightarrow> (Inl e, snd bw) | None \<Rightarrow> (Inr (fst s9), snd bw)))"
    by (rule thomas_solve_h_steps[OF True refl s1_def s2_def s3_def s4_def s5_def s6_def s7_def
          s8_def, unfolded s, OF fw_def s9_def bw_def])
  have fw: "fw = (case forward_loop [1..<?n] ?L ?U (?D, ?R) of
        Inl e \<Rightarrow> (Some e, snd fw) | Inr (d', y') \<Rightarrow> (None, h8[d := d', y := y']))"
  proof -
    have dist: "b < length h8" "c < length h8" "d < length h8" "y < length h8"
      "d \<noteq> y" "d \<noteq> b" "d \<noteq> c" "y \<noteq> b" "y \<noteq> c"
      by (simp_all add: a h8(5))
    show ?thesis
      unfolding fw_def by (rule forward_loop_h_sim[OF dist, of "[1..<?n]", unfolded h8(1-4)])
  qed
  show ?thesis
  proof (cases "forward_loop [1..<?n] ?L ?U (?D, ?R)")
    case (Inl e)
    then have "fst fw = Some e" by (subst fw) simp
    then show ?thesis using True Inl by (simp add: unf thomas_solve_def)
  next
    case (Inr p)
    obtain d' y' where p: "p = (d', y')" by (cases p)
    have fw': "fw = (None, h8[d := d', y := y'])"
      using Inr p by (subst fw) simp
    show ?thesis
    proof (cases "?n = 0")
      case n0: True
      then show ?thesis using True Inr p fw' by (simp add: unf thomas_solve_def)
    next
      case False
      define h10 where "h10 = store x (?n - 1) (fdiv (y' ! (?n - 1)) (d' ! (?n - 1)))
        (h8[d := d', y := y'] @ [np_empty ?n])"
      have s9: "fst s9 = x" "snd s9 = h8[d := d', y := y'] @ [np_empty ?n]"
        using h8(5) by (simp_all add: s9_def np_empty_h_def fw' a)
      have s9n: "snd s9 ! y = y'" "snd s9 ! d = d'"
        using h8(5) by (simp_all add: s9 nth_append a)
      have h10: "h10 ! c = ?U" "h10 ! d = d'" "h10 ! y = y'"
        "h10 ! x = (np_empty ?n)[?n - 1 := fdiv (y' ! (?n - 1)) (d' ! (?n - 1))]"
        "length h10 = m + 9"
        using h8 by (simp_all add: h10_def store_def nth_append a nth_list_update)
      have bw_eq: "bw = backward_loop_h (rev [0..<?n - 1]) c d y x h10"
        by (simp only: bw_def s9(1) s9n, simp only: h10_def s9(2))
      have bw: "bw = (case backward_loop (rev [0..<?n - 1]) ?U d' y'
            ((np_empty ?n)[?n - 1 := fdiv (y' ! (?n - 1)) (d' ! (?n - 1))]) of
          Inl e \<Rightarrow> (Some e, snd bw) | Inr x' \<Rightarrow> (None, h10[x := x']))"
      proof -
        have dist: "c < length h10" "d < length h10" "y < length h10" "x < length h10"
          "x \<noteq> c" "x \<noteq> d" "x \<noteq> y"
          by (simp_all add: a h10(5))
        show ?thesis
          unfolding bw_eq
          by (rule backward_loop_h_sim[OF dist, of "rev [0..<?n - 1]", unfolded h10(1-4)])
      qed
      have unf': "thomas_solve_h lower diag upper rhs h =
        (case fst bw of Some e \<Rightarrow> (Inl e, snd bw) | None \<Rightarrow> (Inr x, snd bw))"
        using False by (simp add: unf fw' s9(1) split: option.splits)
      have ts: "thomas_solve ?L ?D ?U ?R = backward_loop (rev [0..<?n - 1]) ?U d' y'
            ((np_empty ?n)[?n - 1 := fdiv (y' ! (?n - 1)) (d' ! (?n - 1))])"
        using True False Inr p by (simp add: thomas_solve_def Let_def)
      show ?thesis
      proof (cases "thomas_solve ?L ?D ?U ?R")
        case (Inl e)
        then have "fst bw = Some e" using ts by (subst bw) simp
        then show ?thesis using Inl by (simp add: unf')
      next
        case (Inr x')
        then have "bw = (None, h10[x := x'])" using ts by (subst bw) simp
        then show ?thesis using Inr h10(5) by (simp add: unf' x_def)
      qed
    qed
  qed
qed

text \<open>
  An example with aliasing: one array serves as sub- and as super-diagonal. The call
  appends eight copies and the vector \<open>x\<close>; the three arrays of the caller stay as they were.
\<close>

lemma thomas_solve_h_example:
  "thomas_solve_h 0 1 0 2 [[Fin (-1), Fin (-1)], [Fin 2, Fin 2, Fin 2], [Fin 1, Fin 0, Fin 1]]
   = (Inr 11,
      [[Fin (-1), Fin (-1)], [Fin 2, Fin 2, Fin 2], [Fin 1, Fin 0, Fin 1],
       [Fin (-1), Fin (-1)], [Fin (-1), Fin (-1)], [Fin 2, Fin 2, Fin 2],
       [Fin 2, Fin (3/2), Fin (4/3)], [Fin (-1), Fin (-1)], [Fin (-1), Fin (-1)],
       [Fin 1, Fin 0, Fin 1], [Fin 1, Fin (1/2), Fin (4/3)], [Fin 1, Fin 1, Fin 1]])"
  by (simp add: thomas_solve_h_def np_astype_float_def np_copy_def np_empty_h_def np_empty_def
      store_def Let_def upt_rec fin_eval)
text \<open>
  C8. Whatever the four arguments are (also when some of them are the same array, and
  also when the call raises), every array that existed before a call of \<open>_thomas_solve\<close> has
  the same contents after it: the store the call leaves behind starts with the store it
  was given. In particular the implicit-operator arrays the engine passes are unchanged
  by each solve.
\<close>

theorem thomas_solve_leaves_inputs_unchanged:
  "take (length h) (snd (thomas_solve_h lower diag upper rhs h)) = h
   \<and> length h \<le> length (snd (thomas_solve_h lower diag upper rhs h))"
proof -
  have t: "take (length h) (snd (thomas_solve_h lower diag upper rhs h)) = h"
    by (rule thomas_solve_h_frame)
  have "length (take (length h) (snd (thomas_solve_h lower diag upper rhs h))) = length h"
    by (simp only: t)
  then have "length h \<le> length (snd (thomas_solve_h lower diag upper rhs h))"
    by (simp add: min_def split: if_splits)
  with t show ?thesis by simp
qed

section \<open>The grid engine: the assembled operators\<close>

lemma np_linspace_length: "length (np_linspace a b n) = n"
  by (simp add: np_linspace_def Let_def)

lemma np_linspace_nth:
  "i < num - 1 \<Longrightarrow>
   np_linspace start stop num ! i
     = fadd (fmul (of_nat_f i) (fdiv (fsub stop start) (of_nat_f (num - 1)))) start"
proof -
  assume i: "i < num - 1"
  then have "i < num" "[0..<num] ! i = i" by simp_all
  then show ?thesis using i by (simp add: np_linspace_def Let_def)
qed

lemma np_linspace_last: "0 < num \<Longrightarrow> np_linspace start stop num ! (num - 1) = stop"
  by (simp add: np_linspace_def Let_def)

lemma interior_nodes_length: "length (interior_nodes S M) = M - 1"
  by (simp add: interior_nodes_def)

lemma interior_nodes_nth: "1 \<le> i \<Longrightarrow> i < M \<Longrightarrow> interior_nodes S M ! (i - 1) = S ! i"
  by (simp add: interior_nodes_def)

lemma assemble_lengths:
  "length (su_S (assemble K T r sigma ot M N Smax)) = M + 1"
  "length (su_A (assemble K T r sigma ot M N Smax)) = M - 1"
  "length (su_B (assemble K T r sigma ot M N Smax)) = M - 1"
  "length (su_C (assemble K T r sigma ot M N Smax)) = M - 1"
  "length (diag_L (assemble K T r sigma ot M N Smax)) = M - 1"
  "length (lower_L (assemble K T r sigma ot M N Smax)) = M - 2"
  "length (upper_L (assemble K T r sigma ot M N Smax)) = M - 2"
  "length (diag_R (assemble K T r sigma ot M N Smax)) = M - 1"
  "length (lower_R (assemble K T r sigma ot M N Smax)) = M - 2"
  "length (upper_R (assemble K T r sigma ot M N Smax)) = M - 2"
  by (simp_all add: assemble_def Let_def np_linspace_length interior_nodes_length
      coef_A_def coef_B_def coef_C_def coef_alpha_def coef_beta_def)

lemma assemble_scalars:
  "su_option_type (assemble K T r sigma ot M N Smax) = ot"
  "su_K (assemble K T r sigma ot M N Smax) = K"
  "su_r (assemble K T r sigma ot M N Smax) = r"
  "su_Smax (assemble K T r sigma ot M N Smax) = Smax"
  "su_M (assemble K T r sigma ot M N Smax) = M"
  "su_dS (assemble K T r sigma ot M N Smax) = fdiv Smax (of_nat_f M)"
  "su_dt (assemble K T r sigma ot M N Smax) = fdiv T (of_nat_f N)"
  by (simp_all add: assemble_def Let_def)

lemma assemble_ABC:
  fixes K T r sigma Smax :: npfloat and ot :: string and M N i :: nat
  assumes "1 \<le> i" "i < M"
  defines "su \<equiv> assemble K T r sigma ot M N Smax"
  defines "dS \<equiv> fdiv Smax (of_nat_f M)"
  defines "alpha_i \<equiv> fmul (fmul (fmul (fmul (Fin (1/2)) sigma) sigma) (su_S su ! i)) (su_S su ! i)"
  defines "beta_i \<equiv> fmul r (su_S su ! i)"
  shows "su_A su ! (i - 1) = fsub (fdiv alpha_i (fmul dS dS)) (fdiv beta_i (fmul (Fin 2) dS))"
    and "su_B su ! (i - 1) = fsub (fdiv (fmul (Fin (-2)) alpha_i) (fmul dS dS)) r"
    and "su_C su ! (i - 1) = fadd (fdiv alpha_i (fmul dS dS)) (fdiv beta_i (fmul (Fin 2) dS))"
  using assms(1,2) interior_nodes_nth[OF assms(1,2)]
  by (simp_all add: su_def dS_def alpha_i_def beta_i_def assemble_def Let_def
      coef_A_def coef_B_def coef_C_def coef_alpha_def coef_beta_def interior_nodes_length)

lemma assemble_operators:
  fixes K T r sigma Smax :: npfloat and ot :: string and M N i :: nat
  assumes "1 \<le> i" "i < M"
  defines "su \<equiv> assemble K T r sigma ot M N Smax"
  defines "dt \<equiv> fdiv T (of_nat_f N)"
  shows "diag_L su ! (i - 1) = fsub (Fin 1) (fmul (fmul (Fin (1/2)) dt) (su_B su ! (i - 1)))"
    and "diag_R su ! (i - 1) = fadd (Fin 1) (fmul (fmul (Fin (1/2)) dt) (su_B su ! (i - 1)))"
    and "2 \<le> i \<Longrightarrow> lower_L su ! (i - 2) = fmul (fmul (Fin (- 1/2)) dt) (su_A su ! (i - 1))"
    and "2 \<le> i \<Longrightarrow> lower_R su ! (i - 2) = fmul (fmul (Fin (1/2)) dt) (su_A su ! (i - 1))"
    and "i \<le> M - 2 \<Longrightarrow> upper_L su ! (i - 1) = fmul (fmul (Fin (- 1/2)) dt) (su_C su ! (i - 1))"
    and "i \<le> M - 2 \<Longrightarrow> upper_R su ! (i - 1) = fmul (fmul (Fin (1/2)) dt) (su_C su ! (i - 1))"
proof -
  have len: "length (su_A su) = M - 1" "length (su_B su) = M - 1" "length (su_C su) = M - 1"
    by (simp_all add: su_def assemble_lengths)
  have f: "diag_L su = map (\<lambda>b. fsub (Fin 1) (fmul (fmul (Fin (1/2)) dt) b)) (su_B su)"
    "diag_R su = map (\<lambda>b. fadd (Fin 1) (fmul (fmul (Fin (1/2)) dt) b)) (su_B su)"
    "lower_L su = map (fmul (fmul (Fin (- 1/2)) dt)) (drop 1 (su_A su))"
    "lower_R su = map (fmul (fmul (Fin (1/2)) dt)) (drop 1 (su_A su))"
    "upper_L su = map (fmul (fmul (Fin (- 1/2)) dt)) (butlast (su_C su))"
    "upper_R su = map (fmul (fmul (Fin (1/2)) dt)) (butlast (su_C su))"
    by (simp_all add: su_def dt_def assemble_def Let_def)
  show "diag_L su ! (i - 1) = fsub (Fin 1) (fmul (fmul (Fin (1/2)) dt) (su_B su ! (i - 1)))"
    "diag_R su ! (i - 1) = fadd (Fin 1) (fmul (fmul (Fin (1/2)) dt) (su_B su ! (i - 1)))"
    using assms(1,2) len by (simp_all add: f)
  {
    assume i2: "2 \<le> i"
    then have "i - 2 < length (drop 1 (su_A su))" "1 + (i - 2) = i - 1"
      using assms(2) len by simp_all
    then show "lower_L su ! (i - 2) = fmul (fmul (Fin (- 1/2)) dt) (su_A su ! (i - 1))"
      "lower_R su ! (i - 2) = fmul (fmul (Fin (1/2)) dt) (su_A su ! (i - 1))"
      by (simp_all add: f del: One_nat_def)
  }
  {
    assume "i \<le> M - 2"
    then have "i - 1 < length (butlast (su_C su))"
      using assms(1,2) len by simp
    then show "upper_L su ! (i - 1) = fmul (fmul (Fin (- 1/2)) dt) (su_C su ! (i - 1))"
      "upper_R su ! (i - 1) = fmul (fmul (Fin (1/2)) dt) (su_C su ! (i - 1))"
      by (simp_all add: f nth_butlast)
  }
qed

lemma is_fin_const [simp]: "is_fin (of_nat_f k)" "rv (of_nat_f k) = real k"
  "is_zero (of_nat_f k) \<longleftrightarrow> k = 0"
  by (simp_all add: of_nat_f_def)

lemma grid_node_real:
  assumes "is_fin Smax" "0 < M" "i < M"
  shows "is_fin (np_linspace (Fin 0) Smax (M + 1) ! i)"
    and "rv (np_linspace (Fin 0) Smax (M + 1) ! i) = real i * (rv Smax / real M)"
proof -
  have f0: "is_fin (Fin 0)" by simp
  have nz: "\<not> is_zero (of_nat_f M)" using assms(2) by simp
  note d = fsub_fin[OF assms(1) f0]
  note q = fdiv_fin[OF conjunct1[OF d] is_fin_const(1)[of M] nz]
  note m = fmul_fin[OF is_fin_const(1)[of i] conjunct1[OF q]]
  note a = fadd_fin[OF conjunct1[OF m] f0]
  have e: "np_linspace (Fin 0) Smax (M + 1) ! i
      = fadd (fmul (of_nat_f i) (fdiv (fsub Smax (Fin 0)) (of_nat_f M))) (Fin 0)"
    using np_linspace_nth[of i "M + 1" "Fin 0" Smax] assms(3) by simp
  show "is_fin (np_linspace (Fin 0) Smax (M + 1) ! i)"
    unfolding e using a by simp
  show "rv (np_linspace (Fin 0) Smax (M + 1) ! i) = real i * (rv Smax / real M)"
    unfolding e using a m q d by simp
qed

lemma coefficients_real:
  fixes sigma r dS s :: npfloat
  assumes f: "is_fin sigma" "is_fin r" "is_fin dS" "is_fin s" and nz: "\<not> is_zero dS"
  defines "alpha \<equiv> fmul (fmul (fmul (fmul (Fin (1/2)) sigma) sigma) s) s"
  defines "beta \<equiv> fmul r s"
  shows "rv alpha = 1/2 * (rv sigma)\<^sup>2 * (rv s)\<^sup>2"
    and "rv beta = rv r * rv s"
    and "rv (fsub (fdiv alpha (fmul dS dS)) (fdiv beta (fmul (Fin 2) dS)))
           = rv alpha / (rv dS)\<^sup>2 - rv beta / (2 * rv dS)"
    and "rv (fsub (fdiv (fmul (Fin (-2)) alpha) (fmul dS dS)) r)
           = - 2 * rv alpha / (rv dS)\<^sup>2 - rv r"
    and "rv (fadd (fdiv alpha (fmul dS dS)) (fdiv beta (fmul (Fin 2) dS)))
           = rv alpha / (rv dS)\<^sup>2 + rv beta / (2 * rv dS)"
proof -
  have h: "is_fin (Fin c)" for c by simp
  note a1 = fmul_fin[OF h[of "1/2"] f(1)]
  note a2 = fmul_fin[OF conjunct1[OF a1] f(1)]
  note a3 = fmul_fin[OF conjunct1[OF a2] f(4)]
  note a4 = fmul_fin[OF conjunct1[OF a3] f(4)]
  have fa: "is_fin alpha" using a4 by (simp add: alpha_def)
  show ra: "rv alpha = 1/2 * (rv sigma)\<^sup>2 * (rv s)\<^sup>2"
    using a1 a2 a3 a4 by (simp add: alpha_def power2_eq_square)
  note b = fmul_fin[OF f(2) f(4)]
  have fb: "is_fin beta" using b by (simp add: beta_def)
  show rb: "rv beta = rv r * rv s" using b by (simp add: beta_def)
  have dnz: "rv dS \<noteq> 0" using nz is_zero_rv[OF f(3)] by simp
  note dd = fmul_fin[OF f(3) f(3)]
  have ddnz: "\<not> is_zero (fmul dS dS)" using dd dnz is_zero_rv[of "fmul dS dS"] by simp
  note d2 = fmul_fin[OF h[of 2] f(3)]
  have d2nz: "\<not> is_zero (fmul (Fin 2) dS)" using d2 dnz is_zero_rv[of "fmul (Fin 2) dS"] by simp
  note q1 = fdiv_fin[OF fa conjunct1[OF dd] ddnz]
  note q2 = fdiv_fin[OF fb conjunct1[OF d2] d2nz]
  show "rv (fsub (fdiv alpha (fmul dS dS)) (fdiv beta (fmul (Fin 2) dS)))
           = rv alpha / (rv dS)\<^sup>2 - rv beta / (2 * rv dS)"
    using fsub_fin[OF conjunct1[OF q1] conjunct1[OF q2]] q1 q2 dd d2
    by (simp add: power2_eq_square)
  show "rv (fadd (fdiv alpha (fmul dS dS)) (fdiv beta (fmul (Fin 2) dS)))
           = rv alpha / (rv dS)\<^sup>2 + rv beta / (2 * rv dS)"
    using fadd_fin[OF conjunct1[OF q1] conjunct1[OF q2]] q1 q2 dd d2
    by (simp add: power2_eq_square)
  note m2 = fmul_fin[OF h[of "-2"] fa]
  note q3 = fdiv_fin[OF conjunct1[OF m2] conjunct1[OF dd] ddnz]
  show "rv (fsub (fdiv (fmul (Fin (-2)) alpha) (fmul dS dS)) r)
           = - 2 * rv alpha / (rv dS)\<^sup>2 - rv r"
    using fsub_fin[OF conjunct1[OF q3] f(2)] q3 m2 dd
    by (simp add: power2_eq_square)
qed

text \<open>
  C1. For \<open>M \<ge> 3\<close> and every interior node \<open>i = 1..M-1\<close>, with \<open>S_i\<close> the grid node,
  \<open>alpha_i = 0.5 * sigma * sigma * S_i * S_i\<close> and \<open>beta_i = r * S_i\<close>: the entries for node \<open>i\<close>
  of the arrays \<open>A\<close>, \<open>B\<close>, \<open>C\<close> are \<open>alpha_i / dS^2 - beta_i / (2 dS)\<close>,
  \<open>-2 alpha_i / dS^2 - r\<close> and \<open>alpha_i / dS^2 + beta_i / (2 dS)\<close>; row \<open>i\<close> of the implicit
  operator has diagonal \<open>1 - 0.5 dt B_i\<close>, sub-diagonal \<open>-0.5 dt A_i\<close> (rows \<open>i \<ge> 2\<close>) and
  super-diagonal \<open>-0.5 dt C_i\<close> (rows \<open>i \<le> M-2\<close>); the explicit operator has the same entries
  with \<open>+\<close> for \<open>-\<close>. The first conjuncts state this in the float operations of the code;
  the last one reads the coefficients as real numbers when the inputs are finite.
\<close>

theorem crank_nicolson_coefficients:
  fixes K T r sigma Smax :: npfloat and option_type :: string and M N i :: nat
  defines "su \<equiv> assemble K T r sigma option_type M N Smax"
  defines "S_i \<equiv> su_S su ! i"
  defines "dS \<equiv> fdiv Smax (of_nat_f M)" and "dt \<equiv> fdiv T (of_nat_f N)"
  defines "alpha_i \<equiv> fmul (fmul (fmul (fmul (Fin (1/2)) sigma) sigma) S_i) S_i"
  defines "beta_i \<equiv> fmul r S_i"
  defines "A_i \<equiv> fsub (fdiv alpha_i (fmul dS dS)) (fdiv beta_i (fmul (Fin 2) dS))"
  defines "B_i \<equiv> fsub (fdiv (fmul (Fin (-2)) alpha_i) (fmul dS dS)) r"
  defines "C_i \<equiv> fadd (fdiv alpha_i (fmul dS dS)) (fdiv beta_i (fmul (Fin 2) dS))"
  assumes "3 \<le> M" "1 \<le> i" "i \<le> M - 1"
  shows "su_A su ! (i - 1) = A_i \<and> su_B su ! (i - 1) = B_i \<and> su_C su ! (i - 1) = C_i
    \<and> diag_L su ! (i - 1) = fsub (Fin 1) (fmul (fmul (Fin (1/2)) dt) B_i)
    \<and> diag_R su ! (i - 1) = fadd (Fin 1) (fmul (fmul (Fin (1/2)) dt) B_i)
    \<and> (2 \<le> i \<longrightarrow> lower_L su ! (i - 2) = fmul (fmul (Fin (- 1/2)) dt) A_i
                 \<and> lower_R su ! (i - 2) = fmul (fmul (Fin (1/2)) dt) A_i)
    \<and> (i \<le> M - 2 \<longrightarrow> upper_L su ! (i - 1) = fmul (fmul (Fin (- 1/2)) dt) C_i
                 \<and> upper_R su ! (i - 1) = fmul (fmul (Fin (1/2)) dt) C_i)
    \<and> length (diag_L su) = M - 1 \<and> length (lower_L su) = M - 2 \<and> length (upper_L su) = M - 2
    \<and> length (diag_R su) = M - 1 \<and> length (lower_R su) = M - 2 \<and> length (upper_R su) = M - 2
    \<and> (is_fin sigma \<and> is_fin r \<and> is_fin Smax \<and> \<not> is_zero Smax \<longrightarrow>
          rv S_i = real i * rv dS \<and> rv dS = rv Smax / real M
        \<and> rv alpha_i = 1/2 * (rv sigma)\<^sup>2 * (rv S_i)\<^sup>2
        \<and> rv beta_i = rv r * rv S_i
        \<and> rv A_i = rv alpha_i / (rv dS)\<^sup>2 - rv beta_i / (2 * rv dS)
        \<and> rv B_i = - 2 * rv alpha_i / (rv dS)\<^sup>2 - rv r
        \<and> rv C_i = rv alpha_i / (rv dS)\<^sup>2 + rv beta_i / (2 * rv dS))"
proof -
  have iM: "i < M" "0 < M" using assms(10,12) by linarith+
  note abc = assemble_ABC[OF assms(11) iM(1), of K T r sigma option_type N Smax,
      folded su_def, folded S_i_def dS_def, folded alpha_i_def beta_i_def,
      folded A_i_def B_i_def C_i_def]
  note ops = assemble_operators[OF assms(11) iM(1), of K T r sigma option_type N Smax,
      folded su_def dt_def, unfolded abc]
  have lens: "length (diag_L su) = M - 1" "length (lower_L su) = M - 2"
    "length (upper_L su) = M - 2" "length (diag_R su) = M - 1" "length (lower_R su) = M - 2"
    "length (upper_R su) = M - 2"
    by (simp_all add: su_def assemble_lengths)
  have reals: "rv S_i = real i * rv dS \<and> rv dS = rv Smax / real M
        \<and> rv alpha_i = 1/2 * (rv sigma)\<^sup>2 * (rv S_i)\<^sup>2
        \<and> rv beta_i = rv r * rv S_i
        \<and> rv A_i = rv alpha_i / (rv dS)\<^sup>2 - rv beta_i / (2 * rv dS)
        \<and> rv B_i = - 2 * rv alpha_i / (rv dS)\<^sup>2 - rv r
        \<and> rv C_i = rv alpha_i / (rv dS)\<^sup>2 + rv beta_i / (2 * rv dS)"
    if f: "is_fin sigma \<and> is_fin r \<and> is_fin Smax \<and> \<not> is_zero Smax"
  proof -
    have S: "su_S su = np_linspace (Fin 0) Smax (M + 1)"
      by (simp add: su_def assemble_def Let_def)
    have fS: "is_fin S_i" "rv S_i = real i * (rv Smax / real M)"
      using grid_node_real[of Smax M i] f iM by (simp_all add: S_i_def S)
    have nzM: "\<not> is_zero (of_nat_f M)" using iM by simp
    have fd: "is_fin dS" "rv dS = rv Smax / real M"
      using fdiv_fin[OF _ is_fin_const(1)[of M] nzM, of Smax] f by (simp_all add: dS_def)
    have "rv Smax \<noteq> 0" using f is_zero_rv[of Smax] by simp
    then have "rv dS \<noteq> 0" using fd iM by simp
    then have nz: "\<not> is_zero dS" using is_zero_rv[OF fd(1)] by simp
    note c = coefficients_real[of sigma r dS S_i, OF _ _ fd(1) fS(1) nz,
        folded alpha_i_def beta_i_def, folded A_i_def B_i_def C_i_def]
    show ?thesis using c f fS(2) fd(2) by simp
  qed
  show ?thesis
    using abc ops lens reals by (intro conjI impI) blast+
qed

theorem crank_nicolson_coefficients_witness:
  "(3::nat) \<le> 3 \<and> (1::nat) \<le> 1 \<and> (1::nat) \<le> 3 - 1
   \<and> su_A (assemble (Fin 100) (Fin 1) (Fin (1/20)) (Fin (1/5)) ''call'' 3 1 (Fin 300)) ! 0
       = Fin (- 1/200)
   \<and> diag_L (assemble (Fin 100) (Fin 1) (Fin (1/20)) (Fin (1/5)) ''call'' 3 1 (Fin 300)) ! 0
       = Fin (209/200)
   \<and> upper_L (assemble (Fin 100) (Fin 1) (Fin (1/20)) (Fin (1/5)) ''call'' 3 1 (Fin 300)) ! 0
       = Fin (- 9/400)"
proof -
  have S: "su_S (assemble (Fin 100) (Fin 1) (Fin (1/20)) (Fin (1/5)) ''call'' 3 (Suc 0) (Fin 300))
      ! Suc 0 = Fin 100"
    by (simp add: assemble_def Let_def np_linspace_def upt_rec fin_eval of_nat_f_def)
  show ?thesis
    using crank_nicolson_coefficients[where M = 3 and i = 1 and N = 1 and K = "Fin 100"
        and T = "Fin 1" and r = "Fin (1/20)" and sigma = "Fin (1/5)" and Smax = "Fin 300"
        and option_type = "''call''"]
    by (simp add: S fin_eval of_nat_f_def)
qed

section \<open>The grid engine: time steps and boundary values\<close>

lemma time_step_solver_call:
  "time_step su n V =
     (case thomas_solve (lower_L su) (diag_L su) (upper_L su) (step_rhs su n V) of
        Inl e \<Rightarrow> Inl e
      | Inr x \<Rightarrow>
          Inr ((take 1 (V[0 := fst (boundary su (fmul (of_nat_f n) (su_dt su))),
                          su_M su := snd (boundary su (fmul (of_nat_f n) (su_dt su))),
                          0 := fst (boundary su (fmul (of_nat_f (n + 1)) (su_dt su)))])
                @ x
                @ drop (su_M su)
                    (V[0 := fst (boundary su (fmul (of_nat_f n) (su_dt su))),
                       su_M su := snd (boundary su (fmul (of_nat_f n) (su_dt su))),
                       0 := fst (boundary su (fmul (of_nat_f (n + 1)) (su_dt su)))]))
               [su_M su := snd (boundary su (fmul (of_nat_f (n + 1)) (su_dt su)))]))"
  by (simp add: time_step_def step_rhs_def Let_def case_prod_beta split: sum.splits)

lemma build_rhs_length:
  assumes "length (diag_R su) = m" "length (lower_R su) = m - 1" "length (upper_R su) = m - 1"
    and "length V_in = m" "0 < m"
  shows "length (build_rhs su V_in a b c d) = m"
  using assms by (simp add: build_rhs_def Let_def)

lemma step_rhs_length:
  assumes "3 \<le> M" "length V = M + 1"
  shows "length (step_rhs (assemble K T r sigma ot M N Smax) n V) = M - 1"
proof -
  let ?su = "assemble K T r sigma ot M N Smax"
  have "length (build_rhs ?su V_in a b c d) = M - 1" if "length V_in = M - 1" for V_in a b c d
    using that assms(1) by (intro build_rhs_length) (simp_all add: assemble_lengths)
  then show ?thesis
    using assms by (simp add: step_rhs_def Let_def case_prod_beta assemble_scalars)
qed

lemma splice_boundaries:
  assumes "length W = M + 1" "length x = M - 1" "1 \<le> M"
  shows "(take 1 (W[0 := a]) @ x @ drop M (W[0 := a]))[M := b] = a # x @ [b]"
proof -
  let ?W = "W[0 := a]"
  have t: "take 1 ?W = [a]" using assms(1) by (cases W) simp_all
  have "?W ! M # drop (Suc M) ?W = drop M ?W"
    using assms(1) by (intro Cons_nth_drop_Suc) simp
  then have d: "drop M ?W = [?W ! M]" using assms(1) by simp
  obtain j where j: "M = Suc j" using assms(3) by (cases M) auto
  then have "(x @ [?W ! M])[j := b] = x @ [b]"
    using assms(2) list_update_length[of x "?W ! M" "[]" b] by simp
  then show ?thesis unfolding t d by (simp add: j)
qed

lemma time_step_result:
  fixes K T r sigma Smax :: npfloat and ot :: string and M N :: nat
  assumes "3 \<le> M" "length V = M + 1"
  defines "su \<equiv> assemble K T r sigma ot M N Smax"
  shows "\<exists>x. thomas_solve (lower_L su) (diag_L su) (upper_L su) (step_rhs su n V) = Inr x
           \<and> length x = M - 1
           \<and> time_step su n V =
               Inr (fst (boundary su (fmul (of_nat_f (n + 1)) (su_dt su))) # x
                    @ [snd (boundary su (fmul (of_nat_f (n + 1)) (su_dt su)))])"
proof -
  let ?rhs = "step_rhs su n V"
  have len: "length ?rhs = length (diag_L su)" "0 < length (diag_L su)"
    "length (diag_L su) - 1 \<le> length (lower_L su)" "length (diag_L su) - 1 \<le> length (upper_L su)"
    using assms(1,2) by (simp_all add: su_def step_rhs_length assemble_lengths)
  have ts: "thomas_solve (lower_L su) (diag_L su) (upper_L su) ?rhs
      = Inr (thomas_spec (lower_L su) (diag_L su) (upper_L su) ?rhs)"
    using len by (rule thomas_solve_refines)
  let ?x = "thomas_spec (lower_L su) (diag_L su) (upper_L su) ?rhs"
  have lx: "length ?x = M - 1" by (simp add: thomas_spec_length su_def assemble_lengths)
  have M: "su_M su = M" by (simp add: su_def assemble_scalars)
  let ?W = "V[0 := fst (boundary su (fmul (of_nat_f n) (su_dt su))),
               M := snd (boundary su (fmul (of_nat_f n) (su_dt su)))]"
  have sp: "(take 1 (?W[0 := a]) @ ?x @ drop M (?W[0 := a]))[M := b] = a # ?x @ [b]" for a b
    using assms(1,2) lx by (intro splice_boundaries) simp_all
  have "time_step su n V =
      Inr (fst (boundary su (fmul (of_nat_f (n + 1)) (su_dt su))) # ?x
           @ [snd (boundary su (fmul (of_nat_f (n + 1)) (su_dt su)))])"
    unfolding time_step_solver_call ts M sum.case sp by (rule refl)
  with ts lx show ?thesis by blast
qed

lemma payoff_length: "length (payoff ot K S) = length S"
  by (simp add: payoff_def)

lemma time_loop_append:
  "time_loop su (ns @ ms) s =
     (case time_loop su ns s of Inl e \<Rightarrow> Inl e | Inr s' \<Rightarrow> time_loop su ms s')"
proof (induction ns arbitrary: s)
  case Nil
  then show ?case by (cases s) simp
next
  case (Cons n ns)
  obtain V sf where s: "s = (V, sf)" by (cases s)
  show ?case by (simp add: s Cons.IH split: sum.splits)
qed

lemma time_loop_runs:
  fixes K T r sigma Smax :: npfloat and ot :: string and M N :: nat
  assumes "3 \<le> M" "length V0 = M + 1"
  defines "su \<equiv> assemble K T r sigma ot M N Smax"
  shows "\<exists>V sf'. time_loop su [0..<k] (V0, sf) = Inr (V, sf') \<and> length V = M + 1"
proof (induction k)
  case 0
  then show ?case using assms(2) by simp
next
  case (Suc k)
  then obtain V sf' where run: "time_loop su [0..<k] (V0, sf) = Inr (V, sf')"
    and len: "length V = M + 1" by blast
  obtain x where x: "length x = M - 1"
    "time_step su k V = Inr (fst (boundary su (fmul (of_nat_f (k + 1)) (su_dt su))) # x
        @ [snd (boundary su (fmul (of_nat_f (k + 1)) (su_dt su)))])"
    using time_step_result[OF assms(1) len, of K T r sigma ot N Smax k] unfolding su_def by blast
  show ?case
    using assms(1) x by (simp add: time_loop_append run)
qed

text \<open>
  One step computed in full: a call with \<open>K = 100\<close>, \<open>T = 1\<close>,
  \<open>r = 0\<close>, \<open>sigma = 0.2\<close>, \<open>Smax = 300\<close> on the grid \<open>M = 3\<close>, \<open>N = 1\<close>. The grid is
  \<open>{0, 100, 200, 300}\<close>, the payoff \<open>{0, 0, 100, 200}\<close>, the right-hand side \<open>{1, 108}\<close>, and the
  values after the step are \<open>{0, 5400/2753, 275500/2753, 200}\<close>, about
  \<open>{0, 1.9615, 100.0727, 200}\<close>.
\<close>

lemma one_step_example:
  "time_loop (assemble (Fin 100) (Fin 1) (Fin 0) (Fin (1/5)) ''call'' 3 1 (Fin 300)) [0..<1]
     (payoff ''call'' (Fin 100) (np_linspace (Fin 0) (Fin 300) 4), None)
   = Inr ([Fin 0, Fin (5400/2753), Fin (275500/2753), Fin 200], None)"
  by (simp add: fin_eval of_nat_f_def np_linspace_def Let_def upt_rec payoff_def np_maximum_def
      assemble_def interior_nodes_def coef_alpha_def coef_beta_def coef_A_def coef_B_def
      coef_C_def time_step_def boundary_def build_rhs_def math_exp_def fneg_def from_real_def
      signed_zero_def thomas_solve_def np_empty_def fmul_def)



section \<open>The grid engine: validation and the resolved price range\<close>

lemma validate_cases:
  "validate_option_inputs S0 K T sigma =
     (if fle S0 (Fin 0) \<or> fle K (Fin 0) then
        Inl (ValueError ''Stock price and strike must be positive'')
      else if fle T (Fin 0) then Inl (ValueError ''Time to maturity must be positive'')
      else if fle sigma (Fin 0) then Inl (ValueError ''Volatility must be positive'')
      else Inr ())"
  by (simp add: validate_option_inputs_def)

text \<open>
  For inputs that pass every check, the pricer raises nothing: the time loop runs through
  all \<open>N\<close> steps and the function returns a price (with the diagnostic record when
  \<open>return_grid\<close> is set).
\<close>

lemma price_european_fixed_grid_returns:
  fixes S0 K T r sigma :: npfloat and M N :: "int option" and Smax :: "npfloat option"
    and option_type :: string
  defines "M' \<equiv> (case M of Some m \<Rightarrow> m | None \<Rightarrow> DEFAULT_PRICE_STEPS)"
  defines "N' \<equiv> (case N of Some n \<Rightarrow> n | None \<Rightarrow> DEFAULT_TIME_STEPS)"
  defines "su \<equiv> assemble K T r sigma option_type (nat M') (nat N') (resolve_Smax S0 K Smax)"
  assumes "validate_option_inputs S0 K T sigma = Inr ()"
    and "option_type = ''call'' \<or> option_type = ''put''" and "3 \<le> M'" and "1 \<le> N'"
  shows "\<exists>V sf. time_loop su [0..<nat N']
             (payoff option_type K (su_S su),
              if return_grid
              then Some ((replicate (nat N' + 1) (np_empty (nat M' + 1)))
                           [0 := payoff option_type K (su_S su)])
              else None) = Inr (V, sf)
           \<and> length V = nat M' + 1
           \<and> price_european_fixed_grid np_interp S0 K T r sigma option_type M N Smax return_grid
               = Inr (if \<not> return_grid then Price (np_interp S0 (su_S su) V)
                      else PriceInfo (np_interp S0 (su_S su) V)
                             \<lparr> info_S_grid = su_S su, info_V_tau_T = V, info_dS = su_dS su,
                               info_dt = su_dt su, info_M = M', info_N = N',
                               info_Smax = resolve_Smax S0 K Smax, info_surface = sf \<rparr>)"
proof -
  let ?P = "payoff option_type K (su_S su)"
  let ?sf = "if return_grid
      then Some ((replicate (nat N' + 1) (np_empty (nat M' + 1)))[0 := ?P]) else None"
  have M3: "3 \<le> nat M'" using assms(6) by simp
  have l0: "length ?P = nat M' + 1" by (simp add: payoff_length su_def assemble_lengths)
  obtain V sf where run: "time_loop su [0..<nat N'] (?P, ?sf) = Inr (V, sf)"
    and len: "length V = nat M' + 1"
    using time_loop_runs[OF M3 l0, of K T r sigma option_type "nat N'" "resolve_Smax S0 K Smax"
        "nat N'" ?sf]
    unfolding su_def by blast
  have "price_european_fixed_grid np_interp S0 K T r sigma option_type M N Smax return_grid
      = Inr (if \<not> return_grid then Price (np_interp S0 (su_S su) V)
             else PriceInfo (np_interp S0 (su_S su) V)
                    \<lparr> info_S_grid = su_S su, info_V_tau_T = V, info_dS = su_dS su,
                      info_dt = su_dt su, info_M = M', info_N = N',
                      info_Smax = resolve_Smax S0 K Smax, info_surface = sf \<rparr>)"
    using assms(4,5,6,7) run
    unfolding price_european_fixed_grid_def M'_def[symmetric] N'_def[symmetric] Let_def
      su_def[symmetric]
    by auto
  with run len show ?thesis by blast
qed

text \<open>
  C4. When spot, strike, time to expiry or volatility is \<open>\<le> 0\<close>, or the option kind is
  neither \<open>call\<close> nor \<open>put\<close>, or the resolved \<open>M < 3\<close> or \<open>N < 1\<close>, the pricer raises
  \<open>ValueError\<close> with the message of the first check that fails (the parameter checks come
  before the grid check) and returns no price; the outcome does not depend on the rate,
  on \<open>Smax\<close>, on the interpolation or on \<open>return_grid\<close>, which only the grid work reads.
\<close>

theorem price_rejects_invalid_inputs:
  fixes S0 K T r sigma :: npfloat and M N :: "int option"
  defines "M' \<equiv> (case M of Some m \<Rightarrow> m | None \<Rightarrow> DEFAULT_PRICE_STEPS)"
  defines "N' \<equiv> (case N of Some n \<Rightarrow> n | None \<Rightarrow> DEFAULT_TIME_STEPS)"
  assumes "fle S0 (Fin 0) \<or> fle K (Fin 0) \<or> fle T (Fin 0) \<or> fle sigma (Fin 0)
     \<or> (option_type \<noteq> ''call'' \<and> option_type \<noteq> ''put'') \<or> M' < 3 \<or> N' < 1"
  shows "price_european_fixed_grid np_interp S0 K T r sigma option_type M N Smax return_grid
      = Inl (ValueError
          (if fle S0 (Fin 0) \<or> fle K (Fin 0) then ''Stock price and strike must be positive''
           else if fle T (Fin 0) then ''Time to maturity must be positive''
           else if fle sigma (Fin 0) then ''Volatility must be positive''
           else if option_type \<noteq> ''call'' \<and> option_type \<noteq> ''put'' then option_type_message
           else grid_message))
    \<and> (\<forall>np_interp' r' Smax' return_grid'.
          price_european_fixed_grid np_interp' S0 K T r' sigma option_type M N Smax' return_grid'
          = price_european_fixed_grid np_interp S0 K T r sigma option_type M N Smax return_grid)"
proof -
  have "price_european_fixed_grid f S0 K T r' sigma option_type M N Smax' rg
      = Inl (ValueError
          (if fle S0 (Fin 0) \<or> fle K (Fin 0) then ''Stock price and strike must be positive''
           else if fle T (Fin 0) then ''Time to maturity must be positive''
           else if fle sigma (Fin 0) then ''Volatility must be positive''
           else if option_type \<noteq> ''call'' \<and> option_type \<noteq> ''put'' then option_type_message
           else grid_message))" for f r' Smax' rg
    using assms(3)
    by (auto simp: price_european_fixed_grid_def validate_cases M'_def N'_def Let_def)
  then show ?thesis by simp
qed

theorem price_rejects_invalid_inputs_witness:
  "fle (Fin 0) (Fin 0)
   \<and> price_european_fixed_grid (\<lambda>x xp fp. NaN) (Fin 0) (Fin 100) (Fin 1) (Fin (1/20)) (Fin (1/5))
        ''call'' None None None False
       = Inl (ValueError ''Stock price and strike must be positive'')
   \<and> (2::int) < 3
   \<and> price_european_fixed_grid (\<lambda>x xp fp. NaN) (Fin 100) (Fin 100) (Fin 1) (Fin (1/20)) (Fin (1/5))
        ''call'' (Some 2) None None False
       = Inl (ValueError grid_message)"
  using price_rejects_invalid_inputs[of "Fin 0" "Fin 100" "Fin 1" "Fin (1/5)" "''call''" None None
      "\<lambda>x xp fp. NaN" "Fin (1/20)" None False]
    price_rejects_invalid_inputs[of "Fin 100" "Fin 100" "Fin 1" "Fin (1/5)" "''call''" "Some 2" None
      "\<lambda>x xp fp. NaN" "Fin (1/20)" None False]
  by simp

text \<open>
  C5. Without a caller's \<open>Smax\<close> the pricer starts from \<open>3 * K\<close>. A starting value
  \<open>s \<le> S0\<close> is replaced by \<open>1.5 * S0\<close> (for a finite positive spot); any other is kept. For
  inputs that pass validation, with finite spot and strike and a caller's \<open>Smax\<close> that is not
  NaN, the resolved \<open>Smax\<close> is strictly greater than \<open>S0\<close>.
\<close>

theorem resolved_Smax_exceeds_spot:
  "resolve_Smax S0 K None = resolve_Smax S0 K (Some (fmul (Fin 3) K))
   \<and> (is_fin S0 \<and> flt (Fin 0) S0 \<and> fle s S0 \<longrightarrow>
        resolve_Smax S0 K (Some s) = fmul (Fin (3/2)) S0)
   \<and> (\<not> fle s S0 \<longrightarrow> resolve_Smax S0 K (Some s) = s)
   \<and> (validate_option_inputs S0 K T sigma = Inr () \<and> is_fin S0 \<and> is_fin K \<and> Smax \<noteq> Some NaN
        \<longrightarrow> flt S0 (resolve_Smax S0 K Smax))"
proof (intro conjI impI)
  show "resolve_Smax S0 K None = resolve_Smax S0 K (Some (fmul (Fin 3) K))"
    by (simp add: resolve_Smax_def S_MAX_MULTIPLIER_def)
next
  assume a: "is_fin S0 \<and> flt (Fin 0) S0 \<and> fle s S0"
  then obtain x where x: "S0 = Fin x" "0 < x" by (cases S0) auto
  have "flt s (Fin (3/2 * x))" using a x by (cases s) auto
  then show "resolve_Smax S0 K (Some s) = fmul (Fin (3/2)) S0"
    using a x by (simp add: resolve_Smax_def py_max_def fmul_Fin from_real_pos)
next
  assume "\<not> fle s S0"
  then show "resolve_Smax S0 K (Some s) = s" by (simp add: resolve_Smax_def)
next
  assume a: "validate_option_inputs S0 K T sigma = Inr () \<and> is_fin S0 \<and> is_fin K
    \<and> Smax \<noteq> Some NaN"
  then have v: "\<not> fle S0 (Fin 0)" "\<not> fle K (Fin 0)"
    by (auto simp: validate_cases split: if_splits)
  obtain x where x: "S0 = Fin x" "0 < x" using a v(1) by (cases S0) auto
  obtain k where k: "K = Fin k" "0 < k" using a v(2) by (cases K) auto
  define s where "s = (case Smax of Some s \<Rightarrow> s | None \<Rightarrow> fmul S_MAX_MULTIPLIER K)"
  have sn: "s \<noteq> NaN"
    using a k by (cases Smax) (auto simp: s_def S_MAX_MULTIPLIER_def fmul_Fin from_real_pos)
  have r: "resolve_Smax S0 K Smax = (if fle s S0 then py_max s (fmul (Fin (3/2)) S0) else s)"
    by (simp add: resolve_Smax_def s_def)
  show "flt S0 (resolve_Smax S0 K Smax)"
  proof (cases "fle s S0")
    case True
    then have "flt s (Fin (3/2 * x))" using x by (cases s) auto
    then show ?thesis
      unfolding r using True x by (simp add: py_max_def fmul_Fin from_real_pos)
  next
    case False
    then show ?thesis unfolding r using sn x by (cases s) auto
  qed
qed

theorem resolved_Smax_exceeds_spot_witness:
  "validate_option_inputs (Fin 400) (Fin 100) (Fin 1) (Fin (1/5)) = Inr ()
   \<and> is_fin (Fin 400) \<and> is_fin (Fin 100)
   \<and> flt (Fin 400) (resolve_Smax (Fin 400) (Fin 100) None)
   \<and> resolve_Smax (Fin 400) (Fin 100) None = Fin 600"
proof -
  have v: "validate_option_inputs (Fin 400) (Fin 100) (Fin 1) (Fin (1/5)) = Inr ()"
    by (simp add: validate_option_inputs_def)
  from resolved_Smax_exceeds_spot[of "Fin 400" "Fin 100" NaN "Fin 1" "Fin (1/5)" None]
  have "validate_option_inputs (Fin 400) (Fin 100) (Fin 1) (Fin (1/5)) = Inr ()
      \<and> is_fin (Fin 400) \<and> is_fin (Fin 100) \<and> None \<noteq> Some NaN
      \<longrightarrow> flt (Fin 400) (resolve_Smax (Fin 400) (Fin 100) None)"
    by blast
  then have "flt (Fin 400) (resolve_Smax (Fin 400) (Fin 100) None)"
    using v by simp
  moreover have "resolve_Smax (Fin 400) (Fin 100) None = Fin 600"
    by (simp add: resolve_Smax_def S_MAX_MULTIPLIER_def py_max_def fin_eval)
  ultimately show ?thesis using v by simp
qed

section \<open>The adaptive entry point\<close>

lemma price_option_adaptive_time_body:
  "price_option_adaptive_time spot strike rate volatility time_to_expiry num_space_points
     option_type kwargs
   = Inl (NotImplementedError ''Adaptive time-stepping solver not yet implemented'')"
  by (simp add: price_option_adaptive_time_def)

text \<open>
  C9 (what the code does). The function's body raises \<open>NotImplementedError\<close> for every
  input, but the module it lives in cannot be imported: \<^verbatim>\<open>config.py\<close> binds no \<open>PDEConfig\<close>.
  A caller who imports the module and calls the function gets \<open>ImportError\<close>, for every
  input, and never the unimplemented-feature signal.
\<close>

theorem adaptive_entry_point_import_fails:
  "call_price_option_adaptive_time spot strike rate volatility time_to_expiry num_space_points
     option_type kwargs = Inl (ImportError ''PDEConfig'')"
  by (simp add: call_price_option_adaptive_time_def import_pde_adaptive_time_def
      import_from_config_def config_names_def)

end
